theory Spec2Isabelle
  imports Main "HOL-Library.Word"
begin

unbundle bit_operations_syntax

section \<open>Common types\<close>

text \<open>
  \<open>frame_id_t\<close> and \<open>page_id_t\<close> are signed 32-bit integers in the sources; both are
  modelled as \<open>int\<close> (no arithmetic is done on frame ids, page ids only count up from 0).
  \<open>size_t\<close> counters are naturals, with the wrap-around at \<open>2 ^ 64\<close> written out where the
  source decrements or increments without a guard.  A failed \<open>BUSTUB_ASSERT\<close> aborts the
  process; an access outside an array, or \<open>back()\<close> of an empty list, is undefined
  behaviour.  Both are results of the model: \<open>InvalidFrameId\<close> and \<open>RemoveNonEvictable\<close>
  are the two assertions of the replacer, \<open>Undefined\<close> is undefined behaviour.
\<close>

type_synonym frame_id_t = int
type_synonym page_id_t = int

datatype error = InvalidFrameId | RemoveNonEvictable | Undefined

definition INVALID_PAGE_ID :: page_id_t where
  "INVALID_PAGE_ID = -1"

definition SIZE_MAX :: nat where
  "SIZE_MAX = 2 ^ 64 - 1"

definition size_dec :: "nat \<Rightarrow> nat" where
  "size_dec n = (if n = 0 then SIZE_MAX else n - 1)"

definition size_inc :: "nat \<Rightarrow> nat" where
  "size_inc n = (if n = SIZE_MAX then 0 else n + 1)"

section \<open>LRU-K replacer (lru\_k\_replacer.cpp)\<close>

text \<open>
  A node holds the retained access timestamps, most recent first, and the evictable bit.
  The replacer keeps the node store, the two lists of evictable frames and the counters.
  The source also keeps, for each list, a map from frame id to the list iterator of that
  frame; it is used only to test membership and to erase the frame's list entry, which
  the model does on the list itself.
\<close>

record LRUKNode =
  history :: "nat list"
  is_evictable :: bool

record LRUKReplacer =
  node_store :: "frame_id_t \<rightharpoonup> LRUKNode"
  current_timestamp :: nat
  curr_size :: nat
  replacer_size :: nat
  lru_k :: nat
  history_list :: "frame_id_t list"
  cache_list :: "frame_id_t list"

definition new_node :: LRUKNode where
  "new_node = \<lparr>history = [], is_evictable = False\<rparr>"

definition LRUKReplacer_init :: "nat \<Rightarrow> nat \<Rightarrow> LRUKReplacer" where
  "LRUKReplacer_init num_frames k =
     \<lparr>node_store = Map.empty, current_timestamp = 0, curr_size = 0,
      replacer_size = num_frames, lru_k = k, history_list = [], cache_list = []\<rparr>"

text \<open>The frame-id assertion \<open>static_cast<size_t>(frame_id) < replacer_size_\<close>: a
  negative id casts to a value of at least \<open>2 ^ 63\<close>.\<close>

definition frame_in_range :: "LRUKReplacer \<Rightarrow> frame_id_t \<Rightarrow> bool" where
  "frame_in_range r f =
     ((if f < 0 then nat (2 ^ 64 + f) else nat f) < replacer_size r)"

definition AddToHistoryList :: "frame_id_t \<Rightarrow> LRUKReplacer \<Rightarrow> LRUKReplacer" where
  "AddToHistoryList f r = r\<lparr>history_list := f # history_list r\<rparr>"

definition AddToCacheList :: "frame_id_t \<Rightarrow> LRUKReplacer \<Rightarrow> LRUKReplacer" where
  "AddToCacheList f r = r\<lparr>cache_list := f # cache_list r\<rparr>"

definition RemoveFromHistoryList :: "frame_id_t \<Rightarrow> LRUKReplacer \<Rightarrow> LRUKReplacer" where
  "RemoveFromHistoryList f r = r\<lparr>history_list := remove1 f (history_list r)\<rparr>"

definition RemoveFromCacheList :: "frame_id_t \<Rightarrow> LRUKReplacer \<Rightarrow> LRUKReplacer" where
  "RemoveFromCacheList f r = r\<lparr>cache_list := remove1 f (cache_list r)\<rparr>"

text \<open>The scan of \<open>cache_list_\<close> in \<open>Evict\<close>: the loop state is the pair
  \<open>(victim_frame, earliest_k_ts)\<close>.  \<open>node_store_[fid]\<close> creates an empty node when the
  frame is unknown, and \<open>back()\<close> of an empty history is undefined.\<close>

fun scan_cache ::
  "(frame_id_t \<rightharpoonup> LRUKNode) \<Rightarrow> frame_id_t list \<Rightarrow> frame_id_t \<times> nat \<Rightarrow> error + frame_id_t \<times> nat"
where
  "scan_cache ns [] acc = Inr acc"
| "scan_cache ns (fid # fs) (victim, earliest) =
     (case ns fid of
        None \<Rightarrow> Inl Undefined
      | Some node \<Rightarrow>
          (if history node = [] then Inl Undefined
           else (let current_k_ts = last (history node) in
                 if current_k_ts < earliest then scan_cache ns fs (fid, current_k_ts)
                 else scan_cache ns fs (victim, earliest))))"

definition Evict :: "LRUKReplacer \<Rightarrow> error + frame_id_t option \<times> LRUKReplacer" where
  "Evict r =
     (if curr_size r = 0 then Inr (None, r)
      else if history_list r \<noteq> [] then
        (let f = last (history_list r) in
         Inr (Some f,
              r\<lparr>history_list := butlast (history_list r),
                node_store := (node_store r)(f := None),
                curr_size := curr_size r - 1\<rparr>))
      else if cache_list r \<noteq> [] then
        (case scan_cache (node_store r) (cache_list r) (-1, SIZE_MAX) of
           Inl e \<Rightarrow> Inl e
         | Inr (victim, ts) \<Rightarrow>
             Inr (Some victim,
                  (RemoveFromCacheList victim r)
                    \<lparr>node_store := (node_store r)(victim := None),
                     curr_size := curr_size r - 1\<rparr>))
      else Inr (None, r))"

definition RecordAccess :: "frame_id_t \<Rightarrow> LRUKReplacer \<Rightarrow> error + LRUKReplacer" where
  "RecordAccess f r =
     (if \<not> frame_in_range r f then Inl InvalidFrameId
      else
        (let timestamp = current_timestamp r + 1;
             node = (case node_store r f of None \<Rightarrow> new_node | Some n \<Rightarrow> n);
             old_access_count = length (history node);
             h1 = timestamp # history node;
             h2 = (if length h1 > lru_k r then butlast h1 else h1);
             node' = node\<lparr>history := h2\<rparr>;
             r1 = r\<lparr>current_timestamp := timestamp,
                    node_store := (node_store r)(f \<mapsto> node')\<rparr>
         in if is_evictable node' \<and> old_access_count < lru_k r \<and> length h2 = lru_k r
            then Inr (AddToCacheList f (RemoveFromHistoryList f r1))
            else Inr r1))"

definition SetEvictable :: "frame_id_t \<Rightarrow> bool \<Rightarrow> LRUKReplacer \<Rightarrow> error + LRUKReplacer" where
  "SetEvictable f set_evictable r =
     (if \<not> frame_in_range r f then Inl InvalidFrameId
      else
        (case node_store r f of
           None \<Rightarrow> Inr r
         | Some node \<Rightarrow>
             (if is_evictable node = set_evictable then Inr r
              else
                (let r1 = r\<lparr>node_store :=
                              (node_store r)(f \<mapsto> node\<lparr>is_evictable := set_evictable\<rparr>)\<rparr>
                 in if set_evictable then
                      (let r2 = r1\<lparr>curr_size := size_inc (curr_size r1)\<rparr>
                       in if length (history node) < lru_k r then Inr (AddToHistoryList f r2)
                          else Inr (AddToCacheList f r2))
                    else
                      (let r2 = r1\<lparr>curr_size := size_dec (curr_size r1)\<rparr>
                       in if f \<in> set (history_list r2) then Inr (RemoveFromHistoryList f r2)
                          else if f \<in> set (cache_list r2) then Inr (RemoveFromCacheList f r2)
                          else Inr r2)))))"

definition Remove :: "frame_id_t \<Rightarrow> LRUKReplacer \<Rightarrow> error + LRUKReplacer" where
  "Remove f r =
     (if \<not> frame_in_range r f then Inl InvalidFrameId
      else
        (case node_store r f of
           None \<Rightarrow> Inr r
         | Some node \<Rightarrow>
             (if \<not> is_evictable node then Inl RemoveNonEvictable
              else
                (let r1 = r\<lparr>curr_size := size_dec (curr_size r)\<rparr>;
                     r2 = (if length (history node) < lru_k r then RemoveFromHistoryList f r1
                           else RemoveFromCacheList f r1)
                 in Inr (r2\<lparr>node_store := (node_store r2)(f := None)\<rparr>)))))"

definition Size :: "LRUKReplacer \<Rightarrow> nat" where
  "Size r = curr_size r"

section \<open>Buffer pool manager (buffer\_pool\_manager\_instance.cpp)\<close>

text \<open>
  A frame is a \<open>Page\<close> object: the bytes, the page id, the pin count and the dirty flag.
  The disk manager is outside the repository's sources: it is the content of the disk
  (what \<open>ReadPage\<close> returns for a page id) and the log of the calls it received.
  The page table is an \<open>ExtendibleHashTable<page_id_t, frame_id_t>\<close>, which the buffer
  pool uses through \<open>Find\<close>, \<open>Insert\<close> and \<open>Remove\<close> only; here it is the finite
  map of its entries (\<open>Insert\<close> overwrites, \<open>Remove\<close> of an absent key does nothing).
  The latch is not modelled: operations run one after the other.
\<close>

record Page =
  data :: "nat list"
  page_id :: page_id_t
  pin_count :: int
  is_dirty :: bool

datatype disk_event =
  WritePage page_id_t "nat list" | ReadPage page_id_t | DeallocatePage page_id_t

record BufferPoolManagerInstance =
  pages :: "Page list"
  page_table :: "page_id_t \<rightharpoonup> frame_id_t"
  replacer :: LRUKReplacer
  free_list :: "frame_id_t list"
  next_page_id :: page_id_t
  disk :: "page_id_t \<Rightarrow> nat list"
  disk_log :: "disk_event list"

definition ebind :: "error + 'a \<Rightarrow> ('a \<Rightarrow> error + 'b) \<Rightarrow> error + 'b" where
  "ebind m f = (case m of Inl e \<Rightarrow> Inl e | Inr x \<Rightarrow> f x)"

text \<open>\<open>pages_[frame_id]\<close> is defined for \<open>0 \<le> frame_id < pool_size_\<close> only.\<close>

definition frame_ok :: "BufferPoolManagerInstance \<Rightarrow> frame_id_t \<Rightarrow> bool" where
  "frame_ok s f = (0 \<le> f \<and> nat f < length (pages s))"

definition ResetMemory :: "Page \<Rightarrow> Page" where
  "ResetMemory pg = pg\<lparr>data := map (\<lambda>_. 0) (data pg)\<rparr>"

definition BufferPoolManagerInstance_init ::
  "nat \<Rightarrow> nat \<Rightarrow> nat \<Rightarrow> (page_id_t \<Rightarrow> nat list) \<Rightarrow> BufferPoolManagerInstance"
where
  "BufferPoolManagerInstance_init pool_size page_bytes replacer_k d =
     \<lparr>pages = replicate pool_size
                \<lparr>data = replicate page_bytes 0, page_id = INVALID_PAGE_ID,
                 pin_count = 0, is_dirty = False\<rparr>,
      page_table = Map.empty,
      replacer = LRUKReplacer_init pool_size replacer_k,
      free_list = map int [0 ..< pool_size],
      next_page_id = 0, disk = d, disk_log = []\<rparr>"

text \<open>
  The first half of \<open>NewPgImp\<close> and of \<open>FetchPgImp\<close> (the same statements in both):
  take the front of the free list, else evict a victim, write it back when it is dirty
  and remove its old page id from the page table.
\<close>

definition write_back :: "frame_id_t \<Rightarrow> BufferPoolManagerInstance \<Rightarrow> BufferPoolManagerInstance" where
  "write_back f s =
     (let pg = pages s ! nat f in
      if is_dirty pg then
        s\<lparr>disk := (disk s)(page_id pg := data pg),
          disk_log := disk_log s @ [WritePage (page_id pg) (data pg)],
          pages := (pages s)[nat f := pg\<lparr>is_dirty := False\<rparr>]\<rparr>
      else s)"

definition find_frame ::
  "BufferPoolManagerInstance \<Rightarrow> error + frame_id_t option \<times> BufferPoolManagerInstance"
where
  "find_frame s =
     (case free_list s of
        f # fl \<Rightarrow> Inr (Some f, s\<lparr>free_list := fl\<rparr>)
      | [] \<Rightarrow>
          ebind (Evict (replacer s)) (\<lambda>(victim, r').
            case victim of
              None \<Rightarrow> Inr (None, s\<lparr>replacer := r'\<rparr>)
            | Some f \<Rightarrow>
                if \<not> frame_ok s f then Inl Undefined
                else
                  (let old_page_id = page_id (pages s ! nat f);
                       s1 = write_back f (s\<lparr>replacer := r'\<rparr>)
                   in Inr (Some f, s1\<lparr>page_table := (page_table s1)(old_page_id := None)\<rparr>))))"

definition touch_frame ::
  "frame_id_t \<Rightarrow> BufferPoolManagerInstance \<Rightarrow> error + BufferPoolManagerInstance"
where
  "touch_frame f s =
     ebind (RecordAccess f (replacer s)) (\<lambda>r1.
     ebind (SetEvictable f False r1) (\<lambda>r2. Inr (s\<lparr>replacer := r2\<rparr>)))"

definition NewPgImp ::
  "BufferPoolManagerInstance \<Rightarrow> error + (page_id_t \<times> frame_id_t) option \<times> BufferPoolManagerInstance"
where
  "NewPgImp s =
     ebind (find_frame s) (\<lambda>(found, s1).
       case found of
         None \<Rightarrow> Inr (None, s1)
       | Some f \<Rightarrow>
           (let new_id = next_page_id s1;
                s2 = s1\<lparr>next_page_id := new_id + 1,
                        page_table := (page_table s1)(new_id \<mapsto> f)\<rparr>
            in ebind (touch_frame f s2) (\<lambda>s3.
                 if \<not> frame_ok s3 f then Inl Undefined
                 else
                   (let pg = ResetMemory (pages s3 ! nat f)
                    in Inr (Some (new_id, f),
                            s3\<lparr>pages := (pages s3)
                                 [nat f := pg\<lparr>page_id := new_id, pin_count := 1,
                                             is_dirty := False\<rparr>]\<rparr>)))))"

definition FetchPgImp ::
  "page_id_t \<Rightarrow> BufferPoolManagerInstance \<Rightarrow> error + frame_id_t option \<times> BufferPoolManagerInstance"
where
  "FetchPgImp pid s =
     (case page_table s pid of
        Some f \<Rightarrow>
          if \<not> frame_ok s f then Inl Undefined
          else
            (let pg = pages s ! nat f;
                 s1 = s\<lparr>pages := (pages s)[nat f := pg\<lparr>pin_count := pin_count pg + 1\<rparr>]\<rparr>
             in ebind (touch_frame f s1) (\<lambda>s2. Inr (Some f, s2)))
      | None \<Rightarrow>
          ebind (find_frame s) (\<lambda>(found, s1).
            case found of
              None \<Rightarrow> Inr (None, s1)
            | Some f \<Rightarrow>
                if \<not> frame_ok s1 f then Inl Undefined
                else
                  (let pg = pages s1 ! nat f;
                       s2 = s1\<lparr>pages := (pages s1)[nat f := pg\<lparr>data := disk s1 pid\<rparr>],
                               disk_log := disk_log s1 @ [ReadPage pid]\<rparr>;
                       s3 = s2\<lparr>page_table := (page_table s2)(pid \<mapsto> f)\<rparr>
                   in ebind (touch_frame f s3) (\<lambda>s4.
                        Inr (Some f,
                             s4\<lparr>pages := (pages s4)
                                  [nat f := (pages s4 ! nat f)
                                     \<lparr>page_id := pid, pin_count := 1, is_dirty := False\<rparr>]\<rparr>)))))"

definition UnpinPgImp ::
  "page_id_t \<Rightarrow> bool \<Rightarrow> BufferPoolManagerInstance \<Rightarrow> error + bool \<times> BufferPoolManagerInstance"
where
  "UnpinPgImp pid dirty s =
     (case page_table s pid of
        None \<Rightarrow> Inr (False, s)
      | Some f \<Rightarrow>
          if \<not> frame_ok s f then Inl Undefined
          else
            (let pg = pages s ! nat f in
             if pin_count pg = 0 then Inr (False, s)
             else
               (let pg1 = pg\<lparr>pin_count := pin_count pg - 1\<rparr>;
                    pg2 = (if dirty then pg1\<lparr>is_dirty := True\<rparr> else pg1);
                    s1 = s\<lparr>pages := (pages s)[nat f := pg2]\<rparr>
                in if pin_count pg2 = 0 then
                     ebind (SetEvictable f True (replacer s1)) (\<lambda>r1.
                       Inr (True, s1\<lparr>replacer := r1\<rparr>))
                   else Inr (True, s1))))"

definition flush_frame :: "nat \<Rightarrow> BufferPoolManagerInstance \<Rightarrow> BufferPoolManagerInstance" where
  "flush_frame i s =
     (let pg = pages s ! i in
      s\<lparr>disk := (disk s)(page_id pg := data pg),
        disk_log := disk_log s @ [WritePage (page_id pg) (data pg)],
        pages := (pages s)[i := pg\<lparr>is_dirty := False\<rparr>]\<rparr>)"

definition FlushPgImp ::
  "page_id_t \<Rightarrow> BufferPoolManagerInstance \<Rightarrow> error + bool \<times> BufferPoolManagerInstance"
where
  "FlushPgImp pid s =
     (case page_table s pid of
        None \<Rightarrow> Inr (False, s)
      | Some f \<Rightarrow>
          if \<not> frame_ok s f then Inl Undefined
          else
            (let pg = pages s ! nat f in
             Inr (True,
                  s\<lparr>disk := (disk s)(pid := data pg),
                    disk_log := disk_log s @ [WritePage pid (data pg)],
                    pages := (pages s)[nat f := pg\<lparr>is_dirty := False\<rparr>]\<rparr>)))"

fun flush_loop :: "nat list \<Rightarrow> BufferPoolManagerInstance \<Rightarrow> BufferPoolManagerInstance" where
  "flush_loop [] s = s"
| "flush_loop (i # is) s =
     (if page_id (pages s ! i) \<noteq> INVALID_PAGE_ID then flush_loop is (flush_frame i s)
      else flush_loop is s)"

definition FlushAllPgsImp :: "BufferPoolManagerInstance \<Rightarrow> BufferPoolManagerInstance" where
  "FlushAllPgsImp s = flush_loop [0 ..< length (pages s)] s"

definition DeletePgImp ::
  "page_id_t \<Rightarrow> BufferPoolManagerInstance \<Rightarrow> error + bool \<times> BufferPoolManagerInstance"
where
  "DeletePgImp pid s =
     (case page_table s pid of
        Some f \<Rightarrow>
          if \<not> frame_ok s f then Inl Undefined
          else if pin_count (pages s ! nat f) > 0 then Inr (False, s)
          else
            ebind (Remove f (replacer s)) (\<lambda>r1.
              (let pg = ResetMemory (pages s ! nat f)
               in Inr (True,
                       s\<lparr>page_table := (page_table s)(pid := None),
                         replacer := r1,
                         free_list := free_list s @ [f],
                         pages := (pages s)
                           [nat f := pg\<lparr>page_id := INVALID_PAGE_ID, pin_count := 0,
                                       is_dirty := False\<rparr>],
                         disk_log := disk_log s @ [DeallocatePage pid]\<rparr>)))
      | None \<Rightarrow> Inr (True, s\<lparr>disk_log := disk_log s @ [DeallocatePage pid]\<rparr>))"

section \<open>Extendible hash table (extendible\_hash\_table.cpp)\<close>

text \<open>
  The directory holds shared references to buckets, and \<open>Insert\<close> compares references
  (\<open>dir_[i] == target_bucket\<close>), so buckets live in a store and the directory holds
  their addresses (indices into the store); \<open>make_shared\<close> allocates the next address.
  \<open>std::hash<K>\<close> is a parameter \<open>h\<close> of the operations.  Depths are naturals, and
  \<open>1 << d\<close> is \<open>push_bit d 1\<close> (the source's \<open>int\<close> shift is defined for \<open>d < 31\<close>).
\<close>

record ('k, 'v) Bucket =
  b_size :: nat
  b_depth :: nat
  b_list :: "('k \<times> 'v) list"

record ('k, 'v) ExtendibleHashTable =
  global_depth :: nat
  bucket_size :: nat
  num_buckets :: nat
  dir :: "nat list"
  buckets :: "('k, 'v) Bucket list"

definition ExtendibleHashTable_init :: "nat \<Rightarrow> ('k, 'v) ExtendibleHashTable" where
  "ExtendibleHashTable_init bsize =
     \<lparr>global_depth = 0, bucket_size = bsize, num_buckets = 1, dir = [0],
      buckets = [\<lparr>b_size = bsize, b_depth = 0, b_list = []\<rparr>]\<rparr>"

definition IndexOf :: "('k \<Rightarrow> nat) \<Rightarrow> ('k, 'v) ExtendibleHashTable \<Rightarrow> 'k \<Rightarrow> nat" where
  "IndexOf h s key = h key AND (push_bit (global_depth s) 1 - 1)"

text \<open>Modelled from the spec: \<open>Bucket::IsFull\<close>, \<open>GetDepth\<close>, \<open>IncrementDepth\<close> and
  \<open>GetItems\<close> are defined in the header, which is not part of the sources; a bucket is
  full when it holds \<open>size_\<close> items, the others read or increment the fields.\<close>

definition IsFull :: "('k, 'v) Bucket \<Rightarrow> bool" where
  "IsFull b = (length (b_list b) = b_size b)"

fun Bucket_Find :: "('k \<times> 'v) list \<Rightarrow> 'k \<Rightarrow> 'v option" where
  "Bucket_Find [] key = None"
| "Bucket_Find (pair # rest) key =
     (if fst pair = key then Some (snd pair) else Bucket_Find rest key)"

fun Bucket_Remove :: "('k \<times> 'v) list \<Rightarrow> 'k \<Rightarrow> bool \<times> ('k \<times> 'v) list" where
  "Bucket_Remove [] key = (False, [])"
| "Bucket_Remove (pair # rest) key =
     (if fst pair = key then (True, rest)
      else (let (found, rest') = Bucket_Remove rest key in (found, pair # rest')))"

text \<open>The update loop of \<open>Bucket::Insert\<close>: the first pair with the key gets the value.\<close>

fun Bucket_update :: "('k \<times> 'v) list \<Rightarrow> 'k \<Rightarrow> 'v \<Rightarrow> ('k \<times> 'v) list option" where
  "Bucket_update [] key v = None"
| "Bucket_update (pair # rest) key v =
     (if fst pair = key then Some ((fst pair, v) # rest)
      else map_option (\<lambda>rest'. pair # rest') (Bucket_update rest key v))"

text \<open>\<open>Bucket::Insert\<close>: \<open>None\<close> is the result \<open>false\<close> (bucket full, nothing changed).\<close>

definition Bucket_Insert :: "('k, 'v) Bucket \<Rightarrow> 'k \<Rightarrow> 'v \<Rightarrow> ('k, 'v) Bucket option" where
  "Bucket_Insert b key v =
     (case Bucket_update (b_list b) key v of
        Some l \<Rightarrow> Some (b\<lparr>b_list := l\<rparr>)
      | None \<Rightarrow> if IsFull b then None else Some (b\<lparr>b_list := b_list b @ [(key, v)]\<rparr>))"

text \<open>\<open>dir_[index]\<close> and the dereference of the reference found there.\<close>

definition slot_ok :: "('k, 'v) ExtendibleHashTable \<Rightarrow> nat \<Rightarrow> bool" where
  "slot_ok s index = (index < length (dir s) \<and> dir s ! index < length (buckets s))"

definition Find ::
  "('k \<Rightarrow> nat) \<Rightarrow> 'k \<Rightarrow> ('k, 'v) ExtendibleHashTable \<Rightarrow> error + 'v option"
where
  "Find h key s =
     (let index = IndexOf h s key in
      if \<not> slot_ok s index then Inl Undefined
      else Inr (Bucket_Find (b_list (buckets s ! (dir s ! index))) key))"

definition Remove_key ::
  "('k \<Rightarrow> nat) \<Rightarrow> 'k \<Rightarrow> ('k, 'v) ExtendibleHashTable
     \<Rightarrow> error + bool \<times> ('k, 'v) ExtendibleHashTable"
where
  "Remove_key h key s =
     (let index = IndexOf h s key in
      if \<not> slot_ok s index then Inl Undefined
      else
        (let a = dir s ! index; b = buckets s ! a;
             (found, l) = Bucket_Remove (b_list b) key
         in Inr (found, s\<lparr>buckets := (buckets s)[a := b\<lparr>b_list := l\<rparr>]\<rparr>)))"

text \<open>
  The body of the \<open>while (true)\<close> loop of \<open>Insert\<close> after the failed bucket insert: the
  split of the bucket at address \<open>a\<close>.  \<open>stays\<close> is the test of the rehash loop on the
  incremented local depth, \<open>redirect\<close> is the body of the loop over the directory.
\<close>

definition stays :: "('k \<Rightarrow> nat) \<Rightarrow> nat \<Rightarrow> 'k \<times> 'v \<Rightarrow> bool" where
  "stays h local_depth item =
     (let hash_value = h (fst item);
          bucket_index = hash_value AND (push_bit local_depth 1 - 1)
      in bucket_index AND push_bit (local_depth - 1) 1 = 0)"

definition redirect :: "nat \<Rightarrow> nat \<Rightarrow> nat \<Rightarrow> nat \<times> nat \<Rightarrow> nat" where
  "redirect a new_bucket local_depth slot =
     (let (i, d) = slot in
      if d = a then (if drop_bit (local_depth - 1) i AND 1 \<noteq> 0 then new_bucket else d)
      else d)"

definition double_dir :: "('k, 'v) ExtendibleHashTable \<Rightarrow> ('k, 'v) ExtendibleHashTable" where
  "double_dir s = s\<lparr>global_depth := global_depth s + 1, dir := dir s @ dir s\<rparr>"

definition split_bucket ::
  "('k \<Rightarrow> nat) \<Rightarrow> nat \<Rightarrow> ('k, 'v) ExtendibleHashTable \<Rightarrow> ('k, 'v) ExtendibleHashTable"
where
  "split_bucket h a s =
     (let target_bucket = buckets s ! a;
          s1 = (if b_depth target_bucket = global_depth s then double_dir s else s);
          local_depth = b_depth target_bucket + 1;
          new_bucket = length (buckets s1);
          temp_items = b_list target_bucket;
          target' = target_bucket\<lparr>b_depth := local_depth,
                                    b_list := filter (stays h local_depth) temp_items\<rparr>;
          sibling = \<lparr>b_size = bucket_size s1, b_depth = local_depth,
                     b_list = filter (\<lambda>item. \<not> stays h local_depth item) temp_items\<rparr>
      in s1\<lparr>num_buckets := num_buckets s1 + 1,
            buckets := (buckets s1)[a := target'] @ [sibling],
            dir := map (redirect a new_bucket local_depth) (enumerate 0 (dir s1))\<rparr>)"

partial_function (option) Insert ::
  "('k \<Rightarrow> nat) \<Rightarrow> 'k \<Rightarrow> 'v \<Rightarrow> ('k, 'v) ExtendibleHashTable
     \<Rightarrow> (error + ('k, 'v) ExtendibleHashTable) option"
where
  "Insert h key v s =
     (let index = IndexOf h s key in
      if \<not> slot_ok s index then Some (Inl Undefined)
      else
        (let a = dir s ! index in
         case Bucket_Insert (buckets s ! a) key v of
           Some b \<Rightarrow> Some (Inr (s\<lparr>buckets := (buckets s)[a := b]\<rparr>))
         | None \<Rightarrow> Insert h key v (split_bucket h a s)))"

declare Insert.simps [code]

section \<open>B+ tree pages (b\_plus\_tree\_leaf\_page.cpp, b\_plus\_tree\_internal\_page.cpp)\<close>

text \<open>
  A tree page is the common header, the slots \<open>array_[0 .. size - 1]\<close> and, for a leaf,
  the sibling pointer.  Keys are compared as integers (\<open>GenericComparator\<close>), values are
  integers (a record id in a leaf, a child page id in an internal page).  The size of a
  page is the length of its slot list: slots at or beyond \<open>size\<close> hold left-over bytes
  and are not part of the page, so reading one is \<open>Undefined\<close> in the model and writing
  one changes nothing.

  Modelled from the spec: the header of a tree page (\<open>b_plus_tree_page.cpp\<close> is not among
  the sources): page type, size, max size, parent page id and own page id with their
  accessors, a root page being a page whose parent id is invalid, and \<open>GetMinSize\<close>
  being \<open>ceil(max_size / 2)\<close> for internal pages and \<open>ceil((max_size - 1) / 2)\<close> for leaves.
\<close>

datatype IndexPageType = LEAF_PAGE | INTERNAL_PAGE

record BPlusTreePage =
  page_type :: IndexPageType
  max_size :: int
  parent_page_id :: page_id_t
  tree_page_id :: page_id_t
  array :: "(int \<times> int) list"
  next_page_id_leaf :: page_id_t

definition GetSize :: "BPlusTreePage \<Rightarrow> int" where
  "GetSize p = int (length (array p))"

definition IsLeafPage :: "BPlusTreePage \<Rightarrow> bool" where
  "IsLeafPage p = (page_type p = LEAF_PAGE)"

definition IsRootPage :: "BPlusTreePage \<Rightarrow> bool" where
  "IsRootPage p = (parent_page_id p = INVALID_PAGE_ID)"

definition GetMinSize :: "BPlusTreePage \<Rightarrow> int" where
  "GetMinSize p =
     (if IsLeafPage p then ((max_size p - 1) + 1) div 2 else (max_size p + 1) div 2)"

definition Init_leaf :: "page_id_t \<Rightarrow> page_id_t \<Rightarrow> int \<Rightarrow> BPlusTreePage" where
  "Init_leaf pid parent_id msize =
     \<lparr>page_type = LEAF_PAGE, max_size = msize, parent_page_id = parent_id,
      tree_page_id = pid, array = [], next_page_id_leaf = INVALID_PAGE_ID\<rparr>"

definition Init_internal :: "page_id_t \<Rightarrow> page_id_t \<Rightarrow> int \<Rightarrow> BPlusTreePage" where
  "Init_internal pid parent_id msize =
     \<lparr>page_type = INTERNAL_PAGE, max_size = msize, parent_page_id = parent_id,
      tree_page_id = pid, array = [], next_page_id_leaf = INVALID_PAGE_ID\<rparr>"

definition slot_at :: "BPlusTreePage \<Rightarrow> int \<Rightarrow> error + int \<times> int" where
  "slot_at p i = (if 0 \<le> i \<and> i < GetSize p then Inr (array p ! nat i) else Inl Undefined)"

definition KeyAt :: "BPlusTreePage \<Rightarrow> int \<Rightarrow> error + int" where
  "KeyAt p i = map_sum id fst (slot_at p i)"

definition ValueAt :: "BPlusTreePage \<Rightarrow> int \<Rightarrow> error + int" where
  "ValueAt p i = map_sum id snd (slot_at p i)"

definition SetKeyAt :: "int \<Rightarrow> int \<Rightarrow> BPlusTreePage \<Rightarrow> error + BPlusTreePage" where
  "SetKeyAt i key p =
     (if i < 0 then Inl Undefined
      else if i < GetSize p
      then Inr (p\<lparr>array := (array p)[nat i := (key, snd (array p ! nat i))]\<rparr>)
      else Inr p)"

function KeyIndex_loop :: "(int \<times> int) list \<Rightarrow> int \<Rightarrow> nat \<Rightarrow> nat \<Rightarrow> nat" where
  "KeyIndex_loop arr key left right =
     (if left < right then
        (let mid = left + (right - left) div 2 in
         if fst (arr ! mid) < key then KeyIndex_loop arr key (mid + 1) right
         else KeyIndex_loop arr key left mid)
      else left)"
  by pat_completeness auto
termination
  by (relation "measure (\<lambda>(arr, key, left, right). right - left)") auto

definition KeyIndex :: "BPlusTreePage \<Rightarrow> int \<Rightarrow> nat" where
  "KeyIndex p key = KeyIndex_loop (array p) key 0 (length (array p))"

definition Leaf_Lookup :: "BPlusTreePage \<Rightarrow> int \<Rightarrow> int option" where
  "Leaf_Lookup p key =
     (let idx = KeyIndex p key in
      if idx < length (array p) \<and> fst (array p ! idx) = key then Some (snd (array p ! idx))
      else None)"

definition Leaf_Insert :: "int \<Rightarrow> int \<Rightarrow> BPlusTreePage \<Rightarrow> BPlusTreePage" where
  "Leaf_Insert key v p =
     (let idx = KeyIndex p key in
      if idx < length (array p) \<and> fst (array p ! idx) = key then p
      else p\<lparr>array := take idx (array p) @ [(key, v)] @ drop idx (array p)\<rparr>)"

definition RemoveAndDeleteRecord :: "int \<Rightarrow> BPlusTreePage \<Rightarrow> BPlusTreePage" where
  "RemoveAndDeleteRecord key p =
     (let idx = KeyIndex p key in
      if idx \<ge> length (array p) \<or> fst (array p ! idx) \<noteq> key then p
      else p\<lparr>array := take idx (array p) @ drop (idx + 1) (array p)\<rparr>)"

fun ValueIndex_loop :: "(int \<times> int) list \<Rightarrow> int \<Rightarrow> int \<Rightarrow> int" where
  "ValueIndex_loop [] v i = -1"
| "ValueIndex_loop (slot # rest) v i =
     (if snd slot = v then i else ValueIndex_loop rest v (i + 1))"

definition ValueIndex :: "BPlusTreePage \<Rightarrow> int \<Rightarrow> int" where
  "ValueIndex p v = ValueIndex_loop (array p) v 0"

function Lookup_loop :: "(int \<times> int) list \<Rightarrow> int \<Rightarrow> nat \<Rightarrow> nat \<Rightarrow> nat" where
  "Lookup_loop arr key left right =
     (if left < right then
        (let mid = left + (right - left) div 2 in
         if key < fst (arr ! mid) then Lookup_loop arr key left mid
         else Lookup_loop arr key (mid + 1) right)
      else left)"
  by pat_completeness auto
termination
  by (relation "measure (\<lambda>(arr, key, left, right). right - left)") auto

definition Internal_Lookup :: "BPlusTreePage \<Rightarrow> int \<Rightarrow> error + int" where
  "Internal_Lookup p key =
     (let left = Lookup_loop (array p) key 1 (length (array p)) in
      ValueAt p (int left - 1))"

definition PopulateNewRoot :: "int \<Rightarrow> int \<Rightarrow> int \<Rightarrow> BPlusTreePage \<Rightarrow> BPlusTreePage" where
  "PopulateNewRoot old_value new_key new_value p =
     p\<lparr>array := [(0, old_value), (new_key, new_value)]\<rparr>"

definition InsertNodeAfter :: "int \<Rightarrow> int \<Rightarrow> int \<Rightarrow> BPlusTreePage \<Rightarrow> BPlusTreePage" where
  "InsertNodeAfter old_value new_key new_value p =
     (let idx = nat (ValueIndex p old_value + 1) in
      p\<lparr>array := take idx (array p) @ [(new_key, new_value)] @ drop idx (array p)\<rparr>)"

definition Internal_Remove :: "int \<Rightarrow> BPlusTreePage \<Rightarrow> error + BPlusTreePage" where
  "Internal_Remove index p =
     (if index < 0 then Inl Undefined
      else Inr (p\<lparr>array := take (length (array p) - 1)
                            (take (nat index) (array p) @ drop (nat index + 1) (array p))\<rparr>))"


section \<open>B+ tree (b\_plus\_tree.cpp)\<close>

text \<open>
  The tree works on pages it obtains from the buffer pool by page id.  Here the buffer
  pool and the disk behind it are one page store, indexed by page id: \<open>FetchPage\<close> reads
  the store, \<open>NewPage\<close> appends a page (so it never fails and ids are never reused),
  \<open>DeletePage\<close> empties the entry, and fetching an entry that is empty or outside the
  store is \<open>Undefined\<close>.  Pins, latches and the transaction's page set do not change page
  contents and are not modelled: operations run one after the other.  Pointers to pages
  are the addresses (page ids) of their entries.

  Modelled from the spec: the header page (page 0, \<open>header_page.cpp\<close> is not among the
  sources) records the root page id of the index; \<open>UpdateRootPageId\<close> stores the current
  root id there.  Entry 0 of the store stands for it and is not a tree page.
\<close>

record BPlusTree =
  root_page_id :: page_id_t
  leaf_max_size :: int
  internal_max_size :: int
  tree_pages :: "BPlusTreePage option list"
  header_root :: page_id_t

definition BPlusTree_init :: "int \<Rightarrow> int \<Rightarrow> BPlusTree" where
  "BPlusTree_init lmax imax =
     \<lparr>root_page_id = INVALID_PAGE_ID, leaf_max_size = lmax, internal_max_size = imax,
      tree_pages = [None], header_root = INVALID_PAGE_ID\<rparr>"

definition IsEmpty :: "BPlusTree \<Rightarrow> bool" where
  "IsEmpty t = (root_page_id t = INVALID_PAGE_ID)"

definition FetchPage :: "BPlusTree \<Rightarrow> page_id_t \<Rightarrow> error + BPlusTreePage" where
  "FetchPage t pid =
     (if 0 \<le> pid \<and> nat pid < length (tree_pages t) then
        (case tree_pages t ! nat pid of Some p \<Rightarrow> Inr p | None \<Rightarrow> Inl Undefined)
      else Inl Undefined)"

definition put_page :: "page_id_t \<Rightarrow> BPlusTreePage \<Rightarrow> BPlusTree \<Rightarrow> BPlusTree" where
  "put_page pid p t = t\<lparr>tree_pages := (tree_pages t)[nat pid := Some p]\<rparr>"

definition NewPage :: "BPlusTreePage \<Rightarrow> BPlusTree \<Rightarrow> BPlusTree" where
  "NewPage p t = t\<lparr>tree_pages := tree_pages t @ [Some p]\<rparr>"

definition next_tree_page_id :: "BPlusTree \<Rightarrow> page_id_t" where
  "next_tree_page_id t = int (length (tree_pages t))"

definition DeletePage :: "page_id_t \<Rightarrow> BPlusTree \<Rightarrow> BPlusTree" where
  "DeletePage pid t =
     (if 0 \<le> pid then t\<lparr>tree_pages := (tree_pages t)[nat pid := None]\<rparr> else t)"

definition UpdateRootPageId :: "BPlusTree \<Rightarrow> BPlusTree" where
  "UpdateRootPageId t = t\<lparr>header_root := root_page_id t\<rparr>"

definition SetParentPageId :: "page_id_t \<Rightarrow> page_id_t \<Rightarrow> BPlusTree \<Rightarrow> error + BPlusTree" where
  "SetParentPageId pid parent_id t =
     ebind (FetchPage t pid) (\<lambda>child. Inr (put_page pid (child\<lparr>parent_page_id := parent_id\<rparr>) t))"

fun Internal_CopyNFrom ::
  "page_id_t \<Rightarrow> (int \<times> int) list \<Rightarrow> BPlusTree \<Rightarrow> error + BPlusTree"
where
  "Internal_CopyNFrom rid [] t = Inr t"
| "Internal_CopyNFrom rid (item # items) t =
     ebind (FetchPage t rid) (\<lambda>recipient.
     ebind (SetParentPageId (snd item) (tree_page_id recipient)
              (put_page rid (recipient\<lparr>array := array recipient @ [item]\<rparr>) t)) (\<lambda>t1.
     Internal_CopyNFrom rid items t1))"

definition Leaf_MoveHalfTo :: "page_id_t \<Rightarrow> page_id_t \<Rightarrow> BPlusTree \<Rightarrow> error + BPlusTree" where
  "Leaf_MoveHalfTo pid rid t =
     ebind (FetchPage t pid) (\<lambda>this.
     ebind (FetchPage t rid) (\<lambda>recipient.
       (let start_idx = length (array this) div 2;
            t1 = put_page rid (recipient\<lparr>array := array recipient @ drop start_idx (array this)\<rparr>) t
        in ebind (FetchPage t1 pid) (\<lambda>this1.
           ebind (FetchPage t1 rid) (\<lambda>recipient1.
             (let t2 = put_page rid (recipient1\<lparr>next_page_id_leaf := next_page_id_leaf this1\<rparr>) t1
              in ebind (FetchPage t2 pid) (\<lambda>this2.
                 ebind (FetchPage t2 rid) (\<lambda>recipient2.
                   Inr (put_page pid (this2\<lparr>next_page_id_leaf := tree_page_id recipient2,
                                          array := take start_idx (array this2)\<rparr>) t2)))))))))"

definition Internal_MoveHalfTo :: "page_id_t \<Rightarrow> page_id_t \<Rightarrow> BPlusTree \<Rightarrow> error + BPlusTree" where
  "Internal_MoveHalfTo pid rid t =
     ebind (FetchPage t pid) (\<lambda>this.
       (let start_idx = length (array this) div 2 in
        ebind (Internal_CopyNFrom rid (drop start_idx (array this)) t) (\<lambda>t1.
        ebind (FetchPage t1 pid) (\<lambda>this1.
          Inr (put_page pid (this1\<lparr>array := take start_idx (array this1)\<rparr>) t1)))))"

definition Split_leaf :: "page_id_t \<Rightarrow> BPlusTree \<Rightarrow> error + page_id_t \<times> BPlusTree" where
  "Split_leaf pid t =
     ebind (FetchPage t pid) (\<lambda>leaf_page.
       (let new_page_id = next_tree_page_id t;
            t1 = NewPage (Init_leaf new_page_id (parent_page_id leaf_page) (leaf_max_size t)) t
        in ebind (Leaf_MoveHalfTo pid new_page_id t1) (\<lambda>t2. Inr (new_page_id, t2))))"

definition Split_internal :: "page_id_t \<Rightarrow> BPlusTree \<Rightarrow> error + page_id_t \<times> BPlusTree" where
  "Split_internal pid t =
     ebind (FetchPage t pid) (\<lambda>internal_page.
       (let new_page_id = next_tree_page_id t;
            t1 = NewPage (Init_internal new_page_id (parent_page_id internal_page)
                            (internal_max_size t)) t
        in ebind (Internal_MoveHalfTo pid new_page_id t1) (\<lambda>t2. Inr (new_page_id, t2))))"

text \<open>
  The descent loop of \<open>FindLeafPage\<close> (and of both \<open>Begin\<close> functions), from the page
  \<open>pid\<close> down to a leaf.  In the results of the loops and recursions of the tree, \<open>None\<close>
  is a computation that does not return.
\<close>

partial_function (option) descend ::
  "BPlusTree \<Rightarrow> int \<Rightarrow> bool \<Rightarrow> page_id_t \<Rightarrow> (error + page_id_t) option"
where
  "descend t key leftMost pid =
     (case FetchPage t pid of
        Inl e \<Rightarrow> Some (Inl e)
      | Inr node \<Rightarrow>
          if IsLeafPage node then Some (Inr pid)
          else (case (if leftMost then ValueAt node 0 else Internal_Lookup node key) of
                  Inl e \<Rightarrow> Some (Inl e)
                | Inr child_page_id \<Rightarrow> descend t key leftMost child_page_id))"

declare descend.simps [code]

text \<open>\<open>FindLeafPage\<close>: \<open>Inr None\<close> is the result \<open>nullptr\<close> (empty tree).  The operation
  kind only selects latches and the transaction's page set, which are not modelled.\<close>

definition FindLeafPage ::
  "BPlusTree \<Rightarrow> int \<Rightarrow> bool \<Rightarrow> (error + page_id_t option) option"
where
  "FindLeafPage t key leftMost =
     (if IsEmpty t then Some (Inr None)
      else map_option (map_sum id Some) (descend t key leftMost (root_page_id t)))"

definition GetValue :: "BPlusTree \<Rightarrow> int \<Rightarrow> (error + bool \<times> int list) option" where
  "GetValue t key =
     Option.bind (FindLeafPage t key False) (\<lambda>r.
       case r of
         Inl e \<Rightarrow> Some (Inl e)
       | Inr None \<Rightarrow> Some (Inr (False, []))
       | Inr (Some pid) \<Rightarrow>
           Some (ebind (FetchPage t pid) (\<lambda>leaf_page.
             case Leaf_Lookup leaf_page key of
               Some v \<Rightarrow> Inr (True, [v])
             | None \<Rightarrow> Inr (False, []))))"

definition StartNewTree :: "int \<Rightarrow> int \<Rightarrow> BPlusTree \<Rightarrow> BPlusTree" where
  "StartNewTree key v t =
     (let new_page_id = next_tree_page_id t;
          root = Leaf_Insert key v (Init_leaf new_page_id INVALID_PAGE_ID (leaf_max_size t));
          t1 = NewPage root t
      in UpdateRootPageId (t1\<lparr>root_page_id := new_page_id\<rparr>))"

partial_function (option) InsertIntoParent ::
  "page_id_t \<Rightarrow> int \<Rightarrow> page_id_t \<Rightarrow> BPlusTree \<Rightarrow> (error + BPlusTree) option"
where
  "InsertIntoParent old_id key new_id t =
     (case FetchPage t old_id of
        Inl e \<Rightarrow> Some (Inl e)
      | Inr old_node \<Rightarrow>
          if IsRootPage old_node then
            (let new_root_id = next_tree_page_id t;
                 t1 = NewPage (Init_internal new_root_id INVALID_PAGE_ID (internal_max_size t)) t
             in Some (ebind (FetchPage t1 new_id) (\<lambda>new_node.
                      ebind (FetchPage t1 new_root_id) (\<lambda>new_root.
                      ebind (SetParentPageId old_id new_root_id
                               (put_page new_root_id
                                  (PopulateNewRoot (tree_page_id old_node) key
                                     (tree_page_id new_node) new_root) t1)) (\<lambda>t2.
                      ebind (SetParentPageId new_id new_root_id t2) (\<lambda>t3.
                        Inr (UpdateRootPageId (t3\<lparr>root_page_id := new_root_id\<rparr>))))))))
          else
            (let parent_id = parent_page_id old_node in
             case ebind (FetchPage t parent_id) (\<lambda>parent.
                  ebind (SetParentPageId new_id parent_id t) (\<lambda>t1.
                  ebind (FetchPage t1 new_id) (\<lambda>new_node.
                  ebind (FetchPage t1 parent_id) (\<lambda>parent1.
                    (let parent2 = InsertNodeAfter (tree_page_id old_node) key
                                     (tree_page_id new_node) parent1;
                         t2 = put_page parent_id parent2 t1
                     in if GetSize parent2 \<ge> internal_max_size t
                        then ebind (Split_internal parent_id t2) (\<lambda>(new_parent_id, t3).
                             ebind (FetchPage t3 new_parent_id) (\<lambda>new_parent.
                             ebind (KeyAt new_parent 0) (\<lambda>new_key.
                               Inr (Some (new_key, new_parent_id), t3))))
                        else Inr (None, t2)))))) of
               Inl e \<Rightarrow> Some (Inl e)
             | Inr (None, t2) \<Rightarrow> Some (Inr t2)
             | Inr (Some (new_key, new_parent_id), t3) \<Rightarrow>
                 InsertIntoParent parent_id new_key new_parent_id t3))"

declare InsertIntoParent.simps [code]

definition InsertIntoLeaf ::
  "int \<Rightarrow> int \<Rightarrow> BPlusTree \<Rightarrow> (error + bool \<times> BPlusTree) option"
where
  "InsertIntoLeaf key v t =
     Option.bind (FindLeafPage t key False) (\<lambda>r.
       case r of
         Inl e \<Rightarrow> Some (Inl e)
       | Inr None \<Rightarrow> Some (Inr (False, t))
       | Inr (Some pid) \<Rightarrow>
           (case FetchPage t pid of
              Inl e \<Rightarrow> Some (Inl e)
            | Inr leaf_page \<Rightarrow>
                if Leaf_Lookup leaf_page key \<noteq> None then Some (Inr (False, t))
                else
                  (let leaf1 = Leaf_Insert key v leaf_page;
                       t1 = put_page pid leaf1 t
                   in if GetSize leaf1 \<ge> leaf_max_size t then
                        (case ebind (Split_leaf pid t1) (\<lambda>(new_id, t2).
                              ebind (FetchPage t2 new_id) (\<lambda>new_leaf.
                              ebind (KeyAt new_leaf 0) (\<lambda>new_key. Inr (new_key, new_id, t2)))) of
                           Inl e \<Rightarrow> Some (Inl e)
                         | Inr (new_key, new_id, t2) \<Rightarrow>
                             map_option (map_sum id (\<lambda>t3. (True, t3)))
                               (InsertIntoParent pid new_key new_id t2))
                      else Some (Inr (True, t1)))))"

definition Insert_tree ::
  "int \<Rightarrow> int \<Rightarrow> BPlusTree \<Rightarrow> (error + bool \<times> BPlusTree) option"
where
  "Insert_tree key v t =
     (if IsEmpty t then Some (Inr (True, StartNewTree key v t))
      else InsertIntoLeaf key v t)"


definition AdjustRoot :: "page_id_t \<Rightarrow> BPlusTree \<Rightarrow> error + bool \<times> BPlusTree" where
  "AdjustRoot pid t =
     ebind (FetchPage t pid) (\<lambda>old_root_node.
       if IsLeafPage old_root_node \<and> GetSize old_root_node = 0 then
         Inr (True, UpdateRootPageId (t\<lparr>root_page_id := INVALID_PAGE_ID\<rparr>))
       else if \<not> IsLeafPage old_root_node \<and> GetSize old_root_node = 1 then
         ebind (ValueAt old_root_node 0) (\<lambda>new_root_id.
         ebind (SetParentPageId new_root_id INVALID_PAGE_ID t) (\<lambda>t1.
           Inr (True, UpdateRootPageId (t1\<lparr>root_page_id := new_root_id\<rparr>))))
       else Inr (False, t))"

text \<open>The page-level moves of \<open>Redistribute\<close>, on the pages at the given addresses.\<close>

definition Leaf_MoveLastToFrontOf :: "page_id_t \<Rightarrow> page_id_t \<Rightarrow> BPlusTree \<Rightarrow> error + BPlusTree" where
  "Leaf_MoveLastToFrontOf pid rid t =
     ebind (FetchPage t pid) (\<lambda>this.
     ebind (slot_at this (GetSize this - 1)) (\<lambda>item.
     ebind (FetchPage t rid) (\<lambda>recipient.
       (let t1 = put_page rid (recipient\<lparr>array := item # array recipient\<rparr>) t in
        ebind (FetchPage t1 pid) (\<lambda>this1.
          Inr (put_page pid (this1\<lparr>array := butlast (array this1)\<rparr>) t1))))))"

definition Leaf_MoveFirstToEndOf :: "page_id_t \<Rightarrow> page_id_t \<Rightarrow> BPlusTree \<Rightarrow> error + BPlusTree" where
  "Leaf_MoveFirstToEndOf pid rid t =
     ebind (FetchPage t pid) (\<lambda>this.
     ebind (slot_at this 0) (\<lambda>item.
     ebind (FetchPage t rid) (\<lambda>recipient.
       (let t1 = put_page rid (recipient\<lparr>array := array recipient @ [item]\<rparr>) t in
        ebind (FetchPage t1 pid) (\<lambda>this1.
          Inr (put_page pid (this1\<lparr>array := tl (array this1)\<rparr>) t1))))))"

definition Internal_MoveLastToFrontOf ::
  "page_id_t \<Rightarrow> page_id_t \<Rightarrow> int \<Rightarrow> BPlusTree \<Rightarrow> error + BPlusTree"
where
  "Internal_MoveLastToFrontOf pid rid middle_key t =
     ebind (FetchPage t pid) (\<lambda>this.
     ebind (ValueAt this (GetSize this - 1)) (\<lambda>child.
     ebind (FetchPage t rid) (\<lambda>recipient.
     ebind (SetParentPageId child (tree_page_id recipient)
              (put_page rid (recipient\<lparr>array := (middle_key, child) # array recipient\<rparr>) t)) (\<lambda>t1.
     ebind (FetchPage t1 pid) (\<lambda>this1.
       Inr (put_page pid (this1\<lparr>array := butlast (array this1)\<rparr>) t1))))))"

definition Internal_MoveFirstToEndOf ::
  "page_id_t \<Rightarrow> page_id_t \<Rightarrow> int \<Rightarrow> BPlusTree \<Rightarrow> error + BPlusTree"
where
  "Internal_MoveFirstToEndOf pid rid middle_key t =
     ebind (FetchPage t pid) (\<lambda>this.
     ebind (ValueAt this 0) (\<lambda>child.
     ebind (FetchPage t rid) (\<lambda>recipient.
     ebind (SetParentPageId child (tree_page_id recipient)
              (put_page rid (recipient\<lparr>array := array recipient @ [(middle_key, child)]\<rparr>) t)) (\<lambda>t1.
     ebind (FetchPage t1 pid) (\<lambda>this1.
       Inr (put_page pid (this1\<lparr>array := tl (array this1)\<rparr>) t1))))))"

definition set_parent_key :: "page_id_t \<Rightarrow> int \<Rightarrow> page_id_t \<Rightarrow> BPlusTree \<Rightarrow> error + BPlusTree" where
  "set_parent_key parent_id i from_id t =
     ebind (FetchPage t from_id) (\<lambda>from_page.
     ebind (KeyAt from_page 0) (\<lambda>key.
     ebind (FetchPage t parent_id) (\<lambda>parent.
     ebind (SetKeyAt i key parent) (\<lambda>parent1. Inr (put_page parent_id parent1 t)))))"

definition Redistribute ::
  "page_id_t \<Rightarrow> page_id_t \<Rightarrow> page_id_t \<Rightarrow> int \<Rightarrow> bool \<Rightarrow> BPlusTree \<Rightarrow> error + BPlusTree"
where
  "Redistribute neighbor_id node_id parent_id index from_left t =
     ebind (FetchPage t node_id) (\<lambda>node.
       if IsLeafPage node then
         (if from_left then
            ebind (Leaf_MoveLastToFrontOf neighbor_id node_id t)
              (set_parent_key parent_id index node_id)
          else
            ebind (Leaf_MoveFirstToEndOf neighbor_id node_id t)
              (set_parent_key parent_id (index + 1) neighbor_id))
       else
         ebind (FetchPage t parent_id) (\<lambda>parent.
           if from_left then
             ebind (KeyAt parent index) (\<lambda>middle_key.
             ebind (Internal_MoveLastToFrontOf neighbor_id node_id middle_key t)
               (set_parent_key parent_id index node_id))
           else
             ebind (KeyAt parent (index + 1)) (\<lambda>middle_key.
             ebind (Internal_MoveFirstToEndOf neighbor_id node_id middle_key t)
               (set_parent_key parent_id (index + 1) neighbor_id))))"

text \<open>\<open>Coalesce\<close> up to its final recursive call: all entries of \<open>node\<close> move to
  \<open>neighbor\<close> and the parent loses the slot \<open>index\<close>.\<close>

definition Coalesce_move ::
  "page_id_t \<Rightarrow> page_id_t \<Rightarrow> page_id_t \<Rightarrow> int \<Rightarrow> BPlusTree \<Rightarrow> error + BPlusTree"
where
  "Coalesce_move neighbor_id node_id parent_id index t =
     ebind (FetchPage t parent_id) (\<lambda>parent.
     ebind (KeyAt parent index) (\<lambda>middle_key.
     ebind (FetchPage t node_id) (\<lambda>node.
     ebind
       (if IsLeafPage node then
          ebind (FetchPage t neighbor_id) (\<lambda>neighbor.
            (let t1 = put_page neighbor_id (neighbor\<lparr>array := array neighbor @ array node\<rparr>) t in
             ebind (FetchPage t1 node_id) (\<lambda>node1.
             ebind (FetchPage t1 neighbor_id) (\<lambda>neighbor1.
               (let t2 = put_page neighbor_id
                           (neighbor1\<lparr>next_page_id_leaf := next_page_id_leaf node1\<rparr>) t1 in
                ebind (FetchPage t2 node_id) (\<lambda>node2.
                  Inr (put_page node_id (node2\<lparr>array := []\<rparr>) t2)))))))
        else
          (let node0 = node\<lparr>array := (case array node of [] \<Rightarrow> []
                                        | slot # rest \<Rightarrow> (middle_key, snd slot) # rest)\<rparr>;
               t1 = put_page node_id node0 t in
           ebind (Internal_CopyNFrom neighbor_id (array node0) t1) (\<lambda>t2.
           ebind (FetchPage t2 node_id) (\<lambda>node2.
             Inr (put_page node_id (node2\<lparr>array := []\<rparr>) t2)))))
       (\<lambda>t3.
          ebind (FetchPage t3 parent_id) (\<lambda>parent3.
          ebind (Internal_Remove index parent3) (\<lambda>parent4.
            Inr (put_page parent_id parent4 t3)))))))"

partial_function (option) CoalesceOrRedistribute ::
  "page_id_t \<Rightarrow> BPlusTree \<Rightarrow> (error + bool \<times> BPlusTree) option"
where
  "CoalesceOrRedistribute node_id t =
     (case FetchPage t node_id of
        Inl e \<Rightarrow> Some (Inl e)
      | Inr node \<Rightarrow>
          if IsRootPage node then Some (AdjustRoot node_id t)
          else if GetSize node \<ge> GetMinSize node then Some (Inr (False, t))
          else
            (let parent_id = parent_page_id node in
             case FetchPage t parent_id of
               Inl e \<Rightarrow> Some (Inl e)
             | Inr parent \<Rightarrow>
                 (let index = ValueIndex parent (tree_page_id node) in
                  if index > 0 then
                    (case ebind (ValueAt parent (index - 1)) (\<lambda>left_sibling_id.
                          ebind (FetchPage t left_sibling_id) (\<lambda>left_sibling.
                            Inr (left_sibling_id, left_sibling))) of
                       Inl e \<Rightarrow> Some (Inl e)
                     | Inr (left_sibling_id, left_sibling) \<Rightarrow>
                         if GetSize left_sibling > GetMinSize left_sibling then
                           Some (ebind (Redistribute left_sibling_id node_id parent_id index True t)
                                   (\<lambda>t1. Inr (False, t1)))
                         else
                           (case Coalesce_move left_sibling_id node_id parent_id index t of
                              Inl e \<Rightarrow> Some (Inl e)
                            | Inr t1 \<Rightarrow>
                                Option.bind (CoalesceOrRedistribute parent_id t1) (\<lambda>r.
                                  case r of
                                    Inl e \<Rightarrow> Some (Inl e)
                                  | Inr (parent_should_delete, t2) \<Rightarrow>
                                      Some (Inr (True,
                                        if parent_should_delete then DeletePage parent_id t2
                                        else t2)))))
                  else if index < GetSize parent - 1 then
                    (case ebind (ValueAt parent (index + 1)) (\<lambda>right_sibling_id.
                          ebind (FetchPage t right_sibling_id) (\<lambda>right_sibling.
                            Inr (right_sibling_id, right_sibling))) of
                       Inl e \<Rightarrow> Some (Inl e)
                     | Inr (right_sibling_id, right_sibling) \<Rightarrow>
                         if GetSize right_sibling > GetMinSize right_sibling then
                           Some (ebind (Redistribute right_sibling_id node_id parent_id index False t)
                                   (\<lambda>t1. Inr (False, t1)))
                         else
                           (case Coalesce_move node_id right_sibling_id parent_id (index + 1) t of
                              Inl e \<Rightarrow> Some (Inl e)
                            | Inr t1 \<Rightarrow>
                                Option.bind (CoalesceOrRedistribute parent_id t1) (\<lambda>r.
                                  case r of
                                    Inl e \<Rightarrow> Some (Inl e)
                                  | Inr (parent_should_delete, t2) \<Rightarrow>
                                      Some (Inr (False,
                                        DeletePage right_sibling_id
                                          (if parent_should_delete then DeletePage parent_id t2
                                           else t2))))))
                  else Some (Inr (False, t)))))"

declare CoalesceOrRedistribute.simps [code]

definition Remove_tree :: "int \<Rightarrow> BPlusTree \<Rightarrow> (error + BPlusTree) option" where
  "Remove_tree key t =
     Option.bind (FindLeafPage t key False) (\<lambda>r.
       case r of
         Inl e \<Rightarrow> Some (Inl e)
       | Inr None \<Rightarrow> Some (Inr t)
       | Inr (Some pid) \<Rightarrow>
           (case FetchPage t pid of
              Inl e \<Rightarrow> Some (Inl e)
            | Inr leaf_page \<Rightarrow>
                (let leaf1 = RemoveAndDeleteRecord key leaf_page in
                 if GetSize leaf1 = GetSize leaf_page then Some (Inr t)
                 else
                   Option.bind (CoalesceOrRedistribute pid (put_page pid leaf1 t)) (\<lambda>r.
                     case r of
                       Inl e \<Rightarrow> Some (Inl e)
                     | Inr (should_delete, t1) \<Rightarrow>
                         Some (Inr (if should_delete then DeletePage (tree_page_id leaf1) t1
                                    else t1))))))"

section \<open>Index iterator (index\_iterator.cpp)\<close>

text \<open>The iterator holds the pointer to its pinned leaf (\<open>None\<close> is \<open>nullptr\<close>), the page id
  and the slot index.  \<open>operator*\<close> returns \<open>leaf_->GetItem(index_)\<close>, the slot \<open>array_[index_]\<close>
  with no test of the index against the size; where the index is below the size this is
  \<open>slot_at\<close>, and the content of a slot at or beyond the size is not part of the model.\<close>

record IndexIterator =
  it_leaf :: "page_id_t option"
  it_page_id :: page_id_t
  it_index :: int

definition End :: IndexIterator where
  "End = \<lparr>it_leaf = None, it_page_id = INVALID_PAGE_ID, it_index = 0\<rparr>"

definition iterator_at :: "BPlusTree \<Rightarrow> page_id_t \<Rightarrow> int \<Rightarrow> error + IndexIterator" where
  "iterator_at t pid index =
     ebind (FetchPage t pid) (\<lambda>leaf.
       Inr \<lparr>it_leaf = Some pid, it_page_id = tree_page_id leaf, it_index = index\<rparr>)"

definition Begin :: "BPlusTree \<Rightarrow> (error + IndexIterator) option" where
  "Begin t =
     (if IsEmpty t then Some (Inr End)
      else map_option (\<lambda>r. ebind r (\<lambda>pid. iterator_at t pid 0))
             (descend t 0 True (root_page_id t)))"

definition Begin_key :: "BPlusTree \<Rightarrow> int \<Rightarrow> (error + IndexIterator) option" where
  "Begin_key t key =
     (if IsEmpty t then Some (Inr End)
      else map_option (\<lambda>r. ebind r (\<lambda>pid.
               ebind (FetchPage t pid) (\<lambda>leaf_page.
                 iterator_at t pid (int (KeyIndex leaf_page key)))))
             (descend t key False (root_page_id t)))"

definition IsEnd :: "IndexIterator \<Rightarrow> bool" where
  "IsEnd it = (it_leaf it = None)"

definition iterator_eq :: "IndexIterator \<Rightarrow> IndexIterator \<Rightarrow> bool" where
  "iterator_eq a b = (it_page_id a = it_page_id b \<and> it_index a = it_index b)"

definition increment :: "BPlusTree \<Rightarrow> IndexIterator \<Rightarrow> error + IndexIterator" where
  "increment t it =
     (case it_leaf it of
        None \<Rightarrow> Inl Undefined
      | Some pid \<Rightarrow>
          ebind (FetchPage t pid) (\<lambda>leaf.
            (let index = it_index it + 1 in
             if index \<ge> GetSize leaf then
               (let next_page_id = next_page_id_leaf leaf in
                if next_page_id = INVALID_PAGE_ID then Inr End
                else ebind (FetchPage t next_page_id) (\<lambda>next_leaf.
                       Inr \<lparr>it_leaf = Some next_page_id, it_page_id = next_page_id,
                            it_index = 0\<rparr>))
             else Inr (it\<lparr>it_index := index\<rparr>))))"

text \<open>Running a list of tree operations from a state.\<close>

datatype tree_op = Ins int int | Rem int

fun run_tree :: "tree_op list \<Rightarrow> BPlusTree \<Rightarrow> (error + BPlusTree) option" where
  "run_tree [] t = Some (Inr t)"
| "run_tree (Ins k v # ops) t =
     Option.bind (Insert_tree k v t) (\<lambda>r.
       case r of Inl e \<Rightarrow> Some (Inl e) | Inr (ok, t1) \<Rightarrow> run_tree ops t1)"
| "run_tree (Rem k # ops) t =
     Option.bind (Remove_tree k t) (\<lambda>r.
       case r of Inl e \<Rightarrow> Some (Inl e) | Inr t1 \<Rightarrow> run_tree ops t1)"

section \<open>Buffer pool: reachable states and invariants\<close>

text \<open>
  The property of claim C6: every page-table entry names a frame of the pool that carries
  the entry's page id, and every frame with a valid page id is the frame its page id
  is mapped to.
\<close>

definition table_frames_agree :: "BufferPoolManagerInstance \<Rightarrow> bool" where
  "table_frames_agree s =
     ((\<forall>p f. page_table s p = Some f \<longrightarrow> frame_ok s f \<and> page_id (pages s ! nat f) = p) \<and>
      (\<forall>i < length (pages s). page_id (pages s ! i) \<noteq> INVALID_PAGE_ID \<longrightarrow>
           page_table s (page_id (pages s ! i)) = Some (int i)))"

text \<open>
  The states reached from the initial state by the public operations, where \<open>FetchPage\<close>
  is only asked for page ids below the allocator's next page id.
\<close>

inductive bpm_reachable :: "BufferPoolManagerInstance \<Rightarrow> bool" where
  start: "bpm_reachable (BufferPoolManagerInstance_init pool_size page_bytes replacer_k d)"
| NewPage: "bpm_reachable s \<Longrightarrow> NewPgImp s = Inr (res, s') \<Longrightarrow> bpm_reachable s'"
| FetchPage: "bpm_reachable s \<Longrightarrow> pid < next_page_id s \<Longrightarrow> FetchPgImp pid s = Inr (fres, s')
              \<Longrightarrow> bpm_reachable s'"
| UnpinPage: "bpm_reachable s \<Longrightarrow> UnpinPgImp pid dirty s = Inr (ok, s') \<Longrightarrow> bpm_reachable s'"
| FlushPage: "bpm_reachable s \<Longrightarrow> FlushPgImp pid s = Inr (ok, s') \<Longrightarrow> bpm_reachable s'"
| FlushAllPages: "bpm_reachable s \<Longrightarrow> bpm_reachable (FlushAllPgsImp s)"
| DeletePage: "bpm_reachable s \<Longrightarrow> DeletePgImp pid s = Inr (ok, s') \<Longrightarrow> bpm_reachable s'"

text \<open>
  The invariants behind the property.  The evictable frames of a replacer are the frames
  with a node whose evictable bit is set; the replacer's two lists hold such frames
  only, without repetition, the history list those with fewer than \<open>K\<close> accesses.  In a
  pool state, moreover, no page id at or above the next page id is mapped, free frames
  are frames of the pool that no page id is mapped to, and evictable frames are mapped.
\<close>

definition evictable_frames :: "LRUKReplacer \<Rightarrow> frame_id_t set" where
  "evictable_frames r = {f. \<exists>n. node_store r f = Some n \<and> is_evictable n}"

definition replacer_inv :: "LRUKReplacer \<Rightarrow> bool" where
  "replacer_inv r =
     (distinct (history_list r) \<and> distinct (cache_list r) \<and>
      (\<forall>f \<in> set (history_list r).
         \<exists>n. node_store r f = Some n \<and> is_evictable n \<and> length (history n) < lru_k r) \<and>
      (\<forall>f \<in> set (cache_list r).
         \<exists>n. node_store r f = Some n \<and> is_evictable n \<and> \<not> length (history n) < lru_k r))"

definition bpm_inv :: "BufferPoolManagerInstance \<Rightarrow> bool" where
  "bpm_inv s =
     (table_frames_agree s \<and>
      (\<forall>p f. page_table s p = Some f \<longrightarrow> p < next_page_id s) \<and>
      distinct (free_list s) \<and>
      (\<forall>f \<in> set (free_list s). frame_ok s f \<and> (\<forall>p. page_table s p \<noteq> Some f)) \<and>
      replacer_inv (replacer s) \<and>
      (\<forall>f \<in> evictable_frames (replacer s). \<exists>p. page_table s p = Some f))"

text \<open>The state between the two halves of \<open>NewPgImp\<close> and \<open>FetchPgImp\<close>: the frame \<open>f\<close>
  is in no list and no page id is mapped to it.\<close>

definition hole_inv :: "frame_id_t \<Rightarrow> BufferPoolManagerInstance \<Rightarrow> bool" where
  "hole_inv f s =
     (frame_ok s f \<and> (\<forall>p. page_table s p \<noteq> Some f) \<and> f \<notin> set (free_list s) \<and>
      f \<notin> evictable_frames (replacer s) \<and>
      (\<forall>p g. page_table s p = Some g \<longrightarrow> frame_ok s g \<and> page_id (pages s ! nat g) = p) \<and>
      (\<forall>i < length (pages s). i \<noteq> nat f \<longrightarrow> page_id (pages s ! i) \<noteq> INVALID_PAGE_ID \<longrightarrow>
           page_table s (page_id (pages s ! i)) = Some (int i)) \<and>
      (\<forall>p g. page_table s p = Some g \<longrightarrow> p < next_page_id s) \<and>
      distinct (free_list s) \<and>
      (\<forall>g \<in> set (free_list s). frame_ok s g \<and> (\<forall>p. page_table s p \<noteq> Some g)) \<and>
      replacer_inv (replacer s) \<and>
      (\<forall>g \<in> evictable_frames (replacer s). \<exists>p. page_table s p = Some g))"

text \<open>
  The states reached from the initial state by the public operations, with no
  restriction on their arguments, and the invariant behind claim C7: every page-table
  entry names a frame of the pool that carries the entry's page id, and the frames of
  the free list are distinct frames of the pool whose dirty flag is unset and that no
  page id is mapped to.  \<open>unmapped_clean\<close> is the state between the two halves of
  \<open>NewPgImp\<close> and \<open>FetchPgImp\<close>, and \<open>written_back\<close> is what the first half has done to
  the disk: one \<open>WritePage\<close> of the frame's bytes under its page id if the frame was
  dirty, nothing otherwise.
\<close>

definition free_clean :: "BufferPoolManagerInstance \<Rightarrow> bool" where
  "free_clean s =
     ((\<forall>p f. page_table s p = Some f \<longrightarrow> frame_ok s f \<and> page_id (pages s ! nat f) = p) \<and>
      distinct (free_list s) \<and>
      (\<forall>f \<in> set (free_list s).
         frame_ok s f \<and> \<not> is_dirty (pages s ! nat f) \<and> (\<forall>p. page_table s p \<noteq> Some f)))"

definition unmapped_clean :: "frame_id_t \<Rightarrow> BufferPoolManagerInstance \<Rightarrow> bool" where
  "unmapped_clean f s =
     (free_clean s \<and> frame_ok s f \<and> (\<forall>p. page_table s p \<noteq> Some f) \<and>
      f \<notin> set (free_list s) \<and> \<not> is_dirty (pages s ! nat f))"

inductive bpm_run :: "BufferPoolManagerInstance \<Rightarrow> bool" where
  run_start: "bpm_run (BufferPoolManagerInstance_init pool_size page_bytes replacer_k d)"
| run_NewPage: "bpm_run s \<Longrightarrow> NewPgImp s = Inr (res, s') \<Longrightarrow> bpm_run s'"
| run_FetchPage: "bpm_run s \<Longrightarrow> FetchPgImp pid s = Inr (fres, s') \<Longrightarrow> bpm_run s'"
| run_UnpinPage: "bpm_run s \<Longrightarrow> UnpinPgImp pid dirty s = Inr (ok, s') \<Longrightarrow> bpm_run s'"
| run_FlushPage: "bpm_run s \<Longrightarrow> FlushPgImp pid s = Inr (ok, s') \<Longrightarrow> bpm_run s'"
| run_FlushAllPages: "bpm_run s \<Longrightarrow> bpm_run (FlushAllPgsImp s)"
| run_DeletePage: "bpm_run s \<Longrightarrow> DeletePgImp pid s = Inr (ok, s') \<Longrightarrow> bpm_run s'"

definition written_back ::
  "BufferPoolManagerInstance \<Rightarrow> frame_id_t \<Rightarrow> BufferPoolManagerInstance \<Rightarrow> bool" where
  "written_back s f s1 =
     (let old = pages s ! nat f in
      if is_dirty old
      then disk_log s1 = disk_log s @ [WritePage (page_id old) (data old)] \<and>
           disk s1 = (disk s)(page_id old := data old)
      else disk_log s1 = disk_log s \<and> disk s1 = disk s)"


section \<open>Example states\<close>

text \<open>A pool of one frame of four bytes with \<open>K = 2\<close>: after \<open>NewPage\<close> (page 0 pinned in
  frame 0), and after the following \<open>UnpinPage(0, true)\<close> (page 0 dirty and evictable).\<close>

definition bpm_pinned :: BufferPoolManagerInstance where
  "bpm_pinned = snd (projr (NewPgImp (BufferPoolManagerInstance_init 1 4 2 (\<lambda>_. []))))"

definition bpm_dirty :: BufferPoolManagerInstance where
  "bpm_dirty = snd (projr (UnpinPgImp 0 True bpm_pinned))"

text \<open>The pool state \<open>bpm_dirty\<close> after \<open>DeletePage(0)\<close>.\<close>

definition bpm_deleted :: BufferPoolManagerInstance where
  "bpm_deleted = snd (projr (DeletePgImp 0 bpm_dirty))"

text \<open>A replacer for three frames with \<open>K = 2\<close> after \<open>RecordAccess(0)\<close>,
  \<open>RecordAccess(1)\<close>, \<open>SetEvictable(1, true)\<close>, \<open>SetEvictable(0, true)\<close>.\<close>

definition lruk_two_young :: "error + LRUKReplacer" where
  "lruk_two_young =
     ebind (RecordAccess 0 (LRUKReplacer_init 3 2)) (\<lambda>r1.
     ebind (RecordAccess 1 r1) (\<lambda>r2.
     ebind (SetEvictable 1 True r2) (\<lambda>r3.
     SetEvictable 0 True r3)))"

text \<open>A hash table with buckets of one item and the identity as hash function, after
  \<open>Insert(0, 10)\<close> and \<open>Insert(1, 11)\<close>: two full buckets of depth 1.\<close>

definition eht_two :: "(nat, nat) ExtendibleHashTable" where
  "eht_two =
     \<lparr>global_depth = 1, bucket_size = 1, num_buckets = 2, dir = [0, 1],
      buckets = [\<lparr>b_size = 1, b_depth = 1, b_list = [(0, 10)]\<rparr>,
                 \<lparr>b_size = 1, b_depth = 1, b_list = [(1, 11)]\<rparr>]\<rparr>"

definition eht_run_two :: "(error + (nat, nat) ExtendibleHashTable) option" where
  "eht_run_two =
     Option.bind (Insert id 0 10 (ExtendibleHashTable_init 1))
       (\<lambda>r. case r of Inl e \<Rightarrow> Some (Inl e) | Inr s \<Rightarrow> Insert id 1 11 s)"

text \<open>The states in which slot 0 of the directory points to a bucket of one item that
  is full with the key 0: the states the insertion of a second key of hash 0 loops in.\<close>

definition colliding_full :: "(nat, nat) ExtendibleHashTable \<Rightarrow> bool" where
  "colliding_full s =
     (0 < length (dir s) \<and> dir s ! 0 < length (buckets s) \<and>
      b_list (buckets s ! (dir s ! 0)) = [(0, 10)] \<and> b_size (buckets s ! (dir s ! 0)) = 1)"

text \<open>Two runs of the tree.  With leaf size 2 and internal size 4: insert 5, 10, 14, 4, 8
  and remove 10.  With leaf and internal size 3: insert 1, 3, 4, and the same followed
  by the removal of 3, each with the state the run ends in.\<close>

definition bpt_lost_key :: "(error + BPlusTree) option" where
  "bpt_lost_key =
     run_tree [Ins 5 50, Ins 10 100, Ins 14 140, Ins 4 40, Ins 8 80, Rem 10] (BPlusTree_init 2 4)"

text \<open>The state the first run ends in, and the state after a further \<open>Insert(8, 99)\<close>.\<close>

definition bpt_lost_state :: BPlusTree where
  "bpt_lost_state =
     \<lparr>root_page_id = 7, leaf_max_size = 2, internal_max_size = 4,
      tree_pages =
        [None,
         Some \<lparr>page_type = LEAF_PAGE, max_size = 2, parent_page_id = 3, tree_page_id = 1,
               array = [(4, 40)], next_page_id_leaf = 5\<rparr>,
         Some \<lparr>page_type = LEAF_PAGE, max_size = 2, parent_page_id = 6, tree_page_id = 2,
               array = [(14, 140)], next_page_id_leaf = - 1\<rparr>,
         Some \<lparr>page_type = INTERNAL_PAGE, max_size = 4, parent_page_id = 7, tree_page_id = 3,
               array = [(0, 1), (5, 5)], next_page_id_leaf = - 1\<rparr>,
         None,
         Some \<lparr>page_type = LEAF_PAGE, max_size = 2, parent_page_id = 3, tree_page_id = 5,
               array = [(5, 50)], next_page_id_leaf = 8\<rparr>,
         Some \<lparr>page_type = INTERNAL_PAGE, max_size = 4, parent_page_id = 7, tree_page_id = 6,
               array = [(10, 8), (10, 2)], next_page_id_leaf = - 1\<rparr>,
         Some \<lparr>page_type = INTERNAL_PAGE, max_size = 4, parent_page_id = - 1, tree_page_id = 7,
               array = [(0, 3), (10, 6)], next_page_id_leaf = - 1\<rparr>,
         Some \<lparr>page_type = LEAF_PAGE, max_size = 2, parent_page_id = 6, tree_page_id = 8,
               array = [(8, 80)], next_page_id_leaf = 2\<rparr>],
      header_root = 7\<rparr>"

definition bpt_dup_state :: BPlusTree where
  "bpt_dup_state =
     \<lparr>root_page_id = 7, leaf_max_size = 2, internal_max_size = 4,
      tree_pages =
        [None,
         Some \<lparr>page_type = LEAF_PAGE, max_size = 2, parent_page_id = 3, tree_page_id = 1,
               array = [(4, 40)], next_page_id_leaf = 5\<rparr>,
         Some \<lparr>page_type = LEAF_PAGE, max_size = 2, parent_page_id = 6, tree_page_id = 2,
               array = [(14, 140)], next_page_id_leaf = - 1\<rparr>,
         Some \<lparr>page_type = INTERNAL_PAGE, max_size = 4, parent_page_id = 7, tree_page_id = 3,
               array = [(0, 1), (5, 5), (8, 9)], next_page_id_leaf = - 1\<rparr>,
         None,
         Some \<lparr>page_type = LEAF_PAGE, max_size = 2, parent_page_id = 3, tree_page_id = 5,
               array = [(5, 50)], next_page_id_leaf = 9\<rparr>,
         Some \<lparr>page_type = INTERNAL_PAGE, max_size = 4, parent_page_id = 7, tree_page_id = 6,
               array = [(10, 8), (10, 2)], next_page_id_leaf = - 1\<rparr>,
         Some \<lparr>page_type = INTERNAL_PAGE, max_size = 4, parent_page_id = - 1, tree_page_id = 7,
               array = [(0, 3), (10, 6)], next_page_id_leaf = - 1\<rparr>,
         Some \<lparr>page_type = LEAF_PAGE, max_size = 2, parent_page_id = 6, tree_page_id = 8,
               array = [(8, 80)], next_page_id_leaf = 2\<rparr>,
         Some \<lparr>page_type = LEAF_PAGE, max_size = 2, parent_page_id = 3, tree_page_id = 9,
               array = [(8, 99)], next_page_id_leaf = 8\<rparr>],
      header_root = 7\<rparr>"

definition bpt_split :: "(error + BPlusTree) option" where
  "bpt_split = run_tree [Ins 1 10, Ins 3 30, Ins 4 40] (BPlusTree_init 3 3)"

definition bpt_split_state :: BPlusTree where
  "bpt_split_state =
     \<lparr>root_page_id = 3, leaf_max_size = 3, internal_max_size = 3,
      tree_pages =
        [None,
         Some \<lparr>page_type = LEAF_PAGE, max_size = 3, parent_page_id = 3, tree_page_id = 1,
               array = [(1, 10)], next_page_id_leaf = 2\<rparr>,
         Some \<lparr>page_type = LEAF_PAGE, max_size = 3, parent_page_id = 3, tree_page_id = 2,
               array = [(3, 30), (4, 40)], next_page_id_leaf = - 1\<rparr>,
         Some \<lparr>page_type = INTERNAL_PAGE, max_size = 3, parent_page_id = - 1, tree_page_id = 3,
               array = [(0, 1), (3, 2)], next_page_id_leaf = - 1\<rparr>],
      header_root = 3\<rparr>"

definition bpt_three :: "(error + BPlusTree) option" where
  "bpt_three = run_tree [Ins 1 10, Ins 3 30, Ins 4 40, Rem 3] (BPlusTree_init 3 3)"

definition bpt_three_state :: BPlusTree where
  "bpt_three_state =
     \<lparr>root_page_id = 3, leaf_max_size = 3, internal_max_size = 3,
      tree_pages =
        [None,
         Some \<lparr>page_type = LEAF_PAGE, max_size = 3, parent_page_id = 3, tree_page_id = 1,
               array = [(1, 10)], next_page_id_leaf = 2\<rparr>,
         Some \<lparr>page_type = LEAF_PAGE, max_size = 3, parent_page_id = 3, tree_page_id = 2,
               array = [(4, 40)], next_page_id_leaf = - 1\<rparr>,
         Some \<lparr>page_type = INTERNAL_PAGE, max_size = 3, parent_page_id = - 1, tree_page_id = 3,
               array = [(0, 1), (3, 2)], next_page_id_leaf = - 1\<rparr>],
      header_root = 3\<rparr>"

text \<open>A pool of two frames after \<open>FetchPage(0)\<close>, a page id that was never allocated, and
  after the following \<open>NewPage\<close>, which allocates the page id 0.\<close>

definition bpm_fetched0 :: BufferPoolManagerInstance where
  "bpm_fetched0 = snd (projr (FetchPgImp 0 (BufferPoolManagerInstance_init 2 4 2 (\<lambda>_. []))))"

definition bpm_clash :: BufferPoolManagerInstance where
  "bpm_clash = snd (projr (NewPgImp bpm_fetched0))"


section \<open>Evaluation and totality lemmas\<close>

named_theorems bpm_defs

lemmas [bpm_defs] =
  BufferPoolManagerInstance_init_def LRUKReplacer_init_def INVALID_PAGE_ID_def
  NewPgImp_def FetchPgImp_def UnpinPgImp_def DeletePgImp_def FlushPgImp_def
  find_frame_def write_back_def ebind_def touch_frame_def
  RecordAccess_def SetEvictable_def Evict_def Remove_def frame_in_range_def
  AddToHistoryList_def AddToCacheList_def RemoveFromHistoryList_def RemoveFromCacheList_def
  new_node_def Let_def frame_ok_def ResetMemory_def size_inc_def size_dec_def SIZE_MAX_def

lemma bpm_pinned_eq:
  "bpm_pinned =
     \<lparr>pages = [\<lparr>data = [0, 0, 0, 0], page_id = 0, pin_count = 1, is_dirty = False\<rparr>],
      page_table = [0 \<mapsto> 0],
      replacer = \<lparr>node_store = [0 \<mapsto> \<lparr>history = [1], is_evictable = False\<rparr>],
                   current_timestamp = 1, curr_size = 0, replacer_size = 1, lru_k = 2,
                   history_list = [], cache_list = []\<rparr>,
      free_list = [], next_page_id = 1, disk = \<lambda>_. [], disk_log = []\<rparr>"
  by (simp add: bpm_pinned_def bpm_defs eval_nat_numeral)

lemma bpm_dirty_eq:
  "bpm_dirty =
     \<lparr>pages = [\<lparr>data = [0, 0, 0, 0], page_id = 0, pin_count = 0, is_dirty = True\<rparr>],
      page_table = [0 \<mapsto> 0],
      replacer = \<lparr>node_store = [0 \<mapsto> \<lparr>history = [1], is_evictable = True\<rparr>],
                   current_timestamp = 1, curr_size = 1, replacer_size = 1, lru_k = 2,
                   history_list = [0], cache_list = []\<rparr>,
      free_list = [], next_page_id = 1, disk = \<lambda>_. [], disk_log = []\<rparr>"
  by (simp add: bpm_dirty_def bpm_pinned_eq bpm_defs)

lemma Evict_replacer_size:
  "Evict r = Inr (v, r') \<Longrightarrow> replacer_size r' = replacer_size r"
  by (auto simp: Evict_def Let_def RemoveFromCacheList_def split: if_splits sum.splits prod.splits)

lemma RecordAccess_total:
  "frame_in_range r f \<Longrightarrow> \<exists>r'. RecordAccess f r = Inr r' \<and> replacer_size r' = replacer_size r"
  by (auto simp: RecordAccess_def Let_def AddToCacheList_def RemoveFromHistoryList_def)

lemma SetEvictable_total:
  "frame_in_range r f \<Longrightarrow> \<exists>r'. SetEvictable f b r = Inr r' \<and> replacer_size r' = replacer_size r"
  by (auto simp: SetEvictable_def Let_def AddToCacheList_def RemoveFromHistoryList_def
      AddToHistoryList_def RemoveFromCacheList_def split: option.splits)

lemma SetEvictable_True_marks:
  "SetEvictable f True r = Inr r' \<Longrightarrow> node_store r f = Some node \<Longrightarrow>
   \<exists>node'. node_store r' f = Some node' \<and> is_evictable node'"
  by (auto simp: SetEvictable_def Let_def AddToHistoryList_def AddToCacheList_def split: if_splits)

lemma touch_frame_total:
  assumes "frame_in_range (replacer s) f"
  shows "\<exists>r'. touch_frame f s = Inr (s\<lparr>replacer := r'\<rparr>) \<and> replacer_size r' = replacer_size (replacer s)"
proof -
  obtain r1 where r1: "RecordAccess f (replacer s) = Inr r1"
      "replacer_size r1 = replacer_size (replacer s)"
    using RecordAccess_total [OF assms] by blast
  then have "frame_in_range r1 f" using assms by (simp add: frame_in_range_def)
  then obtain r2 where "SetEvictable f False r1 = Inr r2" "replacer_size r2 = replacer_size r1"
    using SetEvictable_total by blast
  with r1 show ?thesis by (auto simp: touch_frame_def ebind_def)
qed

lemma find_frame_evict:
  assumes "free_list s = []" "Evict (replacer s) = Inr (Some f, r')" "frame_ok s f"
  shows "find_frame s =
     Inr (Some f, (write_back f (s\<lparr>replacer := r'\<rparr>))
        \<lparr>page_table := (page_table s)(page_id (pages s ! nat f) := None)\<rparr>)"
  using assms by (simp add: find_frame_def ebind_def Let_def write_back_def)

section \<open>Hash table lemmas\<close>

lemma eht_run_two_eq: "eht_run_two = Some (Inr eht_two)"
  by code_simp

lemma Bucket_update_Some_iff:
  "(\<exists>l'. Bucket_update l k v = Some l') \<longleftrightarrow> Bucket_Find l k \<noteq> None"
  by (induction l) auto

lemma Bucket_update_Find_same:
  "Bucket_update l k v = Some l' \<Longrightarrow> Bucket_Find l' k = Some v"
  by (induction l arbitrary: l') (auto split: if_splits)

lemma Bucket_update_Find_other:
  "Bucket_update l k v = Some l' \<Longrightarrow> k' \<noteq> k \<Longrightarrow> Bucket_Find l' k' = Bucket_Find l k'"
  by (induction l arbitrary: l') (auto split: if_splits)

lemma Bucket_update_keys:
  "Bucket_update l k v = Some l' \<Longrightarrow> map fst l' = map fst l"
  by (induction l arbitrary: l') (auto split: if_splits)



lemma redirect_iff_bit:
  "redirect a nb (Suc ld) (i, d) = (if d = a \<and> bit i ld then nb else d)"
  by (simp add: redirect_def bit_iff_odd_drop_bit and_one_eq mod_2_eq_odd)

lemma map_redirect_nth:
  "i < length ds \<Longrightarrow>
   map (redirect a nb (Suc ld)) (enumerate 0 ds) ! i = (if ds ! i = a \<and> bit i ld then nb else ds ! i)"
  by (simp add: nth_enumerate_eq redirect_iff_bit)

text \<open>
  The loop of \<open>Insert\<close> need not end.  With a hash function that sends every key to 0
  and buckets of one item, the table holding the key 0, the insertion of the key 1 finds
  the bucket full, splits it, finds the key 0 in the bucket of slot 0 again, and so on:
  every split leaves the state in \<open>colliding_full\<close>, and \<open>Insert\<close> does not return.
\<close>

lemma colliding_full_split:
  assumes "colliding_full s"
  shows "colliding_full (split_bucket (\<lambda>_. 0) (dir s ! 0) s)"
  using assms
  by (simp add: colliding_full_def split_bucket_def Let_def double_dir_def stays_def
      nth_append map_redirect_nth redirect_iff_bit nth_enumerate_eq)

lemma Insert_colliding_no_result:
  assumes "Insert h k v s = Some y"
  shows "\<not> (h = (\<lambda>_. 0) \<and> k = 1 \<and> colliding_full s)"
proof (rule Insert.raw_induct
    [where P = "\<lambda>h k v s y. \<not> (h = (\<lambda>_. 0) \<and> k = 1 \<and> colliding_full s)", OF _ assms])
  fix Insert' :: "(nat \<Rightarrow> nat) \<Rightarrow> nat \<Rightarrow> nat \<Rightarrow> (nat, nat) ExtendibleHashTable
      \<Rightarrow> (error + (nat, nat) ExtendibleHashTable) option"
  fix h k v s y
  assume IH: "\<And>h k v s y. Insert' h k v s = Some y
      \<Longrightarrow> \<not> (h = (\<lambda>_. 0) \<and> k = 1 \<and> colliding_full s)"
  assume body: "(let index = IndexOf h s k
      in if \<not> slot_ok s index then Some (Inl Undefined)
         else let a = dir s ! index
              in case Bucket_Insert (buckets s ! a) k v of
                 None \<Rightarrow> Insert' h k v (split_bucket h a s)
                 | Some b \<Rightarrow> Some (Inr (s\<lparr>buckets := (buckets s)[a := b]\<rparr>))) = Some y"
  show "\<not> (h = (\<lambda>_. 0) \<and> k = 1 \<and> colliding_full s)"
  proof
    assume A: "h = (\<lambda>_. 0) \<and> k = 1 \<and> colliding_full s"
    then have "Insert' h k v (split_bucket h (dir s ! 0) s) = Some y"
      using body
      by (simp add: colliding_full_def IndexOf_def slot_ok_def Bucket_Insert_def IsFull_def
          Let_def)
    from IH [OF this] A colliding_full_split show False by simp
  qed
qed

lemma Insert_colliding_diverges:
  "Insert (\<lambda>_. 0) 0 10 (ExtendibleHashTable_init 1) =
     Some (Inr \<lparr>global_depth = 0, bucket_size = 1, num_buckets = 1, dir = [0],
                buckets = [\<lparr>b_size = 1, b_depth = 0, b_list = [(0::nat, 10::nat)]\<rparr>]\<rparr>) \<and>
   Insert (\<lambda>_. 0) 1 11
     \<lparr>global_depth = 0, bucket_size = 1, num_buckets = 1, dir = [0],
      buckets = [\<lparr>b_size = 1, b_depth = 0, b_list = [(0::nat, 10::nat)]\<rparr>]\<rparr> = None"
proof
  show "Insert (\<lambda>_. 0) 0 10 (ExtendibleHashTable_init 1) =
     Some (Inr \<lparr>global_depth = 0, bucket_size = 1, num_buckets = 1, dir = [0],
                buckets = [\<lparr>b_size = 1, b_depth = 0, b_list = [(0::nat, 10::nat)]\<rparr>]\<rparr>)"
    by (subst Insert.simps)
       (simp add: ExtendibleHashTable_init_def IndexOf_def slot_ok_def Bucket_Insert_def
          IsFull_def Let_def)
  have "colliding_full \<lparr>global_depth = 0, bucket_size = 1, num_buckets = 1, dir = [0],
      buckets = [\<lparr>b_size = 1, b_depth = 0, b_list = [(0::nat, 10::nat)]\<rparr>]\<rparr>"
    by (simp add: colliding_full_def)
  with Insert_colliding_no_result show "Insert (\<lambda>_. 0) 1 11
     \<lparr>global_depth = 0, bucket_size = 1, num_buckets = 1, dir = [0],
      buckets = [\<lparr>b_size = 1, b_depth = 0, b_list = [(0::nat, 10::nat)]\<rparr>]\<rparr> = None"
    by (metis not_None_eq)
qed

section \<open>Tree lemmas\<close>

lemma bpt_split_eq: "bpt_split = Some (Inr bpt_split_state)"
  by code_simp

lemma bpt_three_eq: "bpt_three = Some (Inr bpt_three_state)"
  by code_simp

text \<open>When the descent for \<open>k\<close> ends in a leaf that holds \<open>k\<close> (so that \<open>GetValue(k)\<close>
  returns true), \<open>Insert(k, v')\<close> returns false and the tree state is unchanged.\<close>

lemma Insert_found_unchanged:
  assumes "GetValue t k = Some (Inr (True, vs))"
  shows "Insert_tree k v' t = Some (Inr (False, t))"
proof -
  from assms have ne: "\<not> IsEmpty t"
    by (auto simp: GetValue_def FindLeafPage_def)
  from assms obtain r where r: "FindLeafPage t k False = Some r"
    by (auto simp: GetValue_def split: Option.bind_splits)
  with assms obtain pid where pid: "r = Inr (Some pid)"
    by (cases r) (auto simp: GetValue_def split: option.splits)
  from assms r pid obtain leaf where leaf: "FetchPage t pid = Inr leaf"
    by (cases "FetchPage t pid") (auto simp: GetValue_def ebind_def)
  from assms r pid leaf have "Leaf_Lookup leaf k \<noteq> None"
    by (auto simp: GetValue_def ebind_def split: option.splits)
  with ne r pid leaf show ?thesis
    by (simp add: Insert_tree_def InsertIntoLeaf_def)
qed

section \<open>Buffer pool invariant lemmas\<close>

lemma replacer_inv_init: "replacer_inv (LRUKReplacer_init n k)"
  by (simp add: replacer_inv_def LRUKReplacer_init_def)

lemma evictable_init: "evictable_frames (LRUKReplacer_init n k) = {}"
  by (simp add: evictable_frames_def LRUKReplacer_init_def)

lemma RecordAccess_evictable:
  assumes "RecordAccess f r = Inr r'"
  shows "evictable_frames r' = evictable_frames r"
  using assms
  by (auto simp: RecordAccess_def Let_def evictable_frames_def new_node_def
      AddToCacheList_def RemoveFromHistoryList_def split: if_splits option.splits)

lemma RecordAccess_inv:
  assumes ra: "RecordAccess f r = Inr r'" and inv: "replacer_inv r"
  shows "replacer_inv r'"
proof -
  define node where "node = (case node_store r f of None \<Rightarrow> new_node | Some n \<Rightarrow> n)"
  define h1 where "h1 = (current_timestamp r + 1) # history node"
  define h2 where "h2 = (if length h1 > lru_k r then butlast h1 else h1)"
  define r1 where "r1 = r\<lparr>current_timestamp := current_timestamp r + 1,
                    node_store := (node_store r)(f \<mapsto> node\<lparr>history := h2\<rparr>)\<rparr>"
  have r': "r' = (if is_evictable node \<and> length (history node) < lru_k r \<and> length h2 = lru_k r
                  then AddToCacheList f (RemoveFromHistoryList f r1) else r1)"
    using ra by (auto simp: RecordAccess_def Let_def node_def h1_def h2_def r1_def split: if_splits)
  have len: "length h2 = (if length (history node) < lru_k r then length (history node) + 1
                           else length (history node))"
    by (auto simp: h2_def h1_def)
  from inv have d: "distinct (history_list r)" "distinct (cache_list r)"
    and hl: "\<And>g. g \<in> set (history_list r) \<Longrightarrow>
               \<exists>n. node_store r g = Some n \<and> is_evictable n \<and> length (history n) < lru_k r"
    and cl: "\<And>g. g \<in> set (cache_list r) \<Longrightarrow>
               \<exists>n. node_store r g = Some n \<and> is_evictable n \<and> \<not> length (history n) < lru_k r"
    by (auto simp: replacer_inv_def)
  show ?thesis
  proof (cases "is_evictable node \<and> length (history node) < lru_k r \<and> length h2 = lru_k r")
    case True
    then have fc: "f \<notin> set (cache_list r)"
      using cl [of f] by (auto simp: node_def)
    have r'eq: "r' = AddToCacheList f (RemoveFromHistoryList f r1)" using True r' by simp
    have sh: "set (remove1 f (history_list r)) = set (history_list r) - {f}"
      using d(1) by (rule set_remove1_eq)
    have h': "\<And>g. g \<in> set (history_list r') \<Longrightarrow>
               \<exists>n. node_store r' g = Some n \<and> is_evictable n \<and> length (history n) < lru_k r'"
      using hl by (auto simp: r'eq AddToCacheList_def RemoveFromHistoryList_def r1_def sh)
    have c': "\<And>g. g \<in> set (cache_list r') \<Longrightarrow>
               \<exists>n. node_store r' g = Some n \<and> is_evictable n \<and> \<not> length (history n) < lru_k r'"
      using cl fc True by (auto simp: r'eq AddToCacheList_def RemoveFromHistoryList_def r1_def)
    have "distinct (history_list r')" "distinct (cache_list r')"
      using d fc by (simp_all add: r'eq AddToCacheList_def RemoveFromHistoryList_def r1_def)
    with h' c' show ?thesis by (simp add: replacer_inv_def)
  next
    case False
    then have "r' = r1" using r' by (simp split: if_splits) blast
    moreover have "\<And>g. g \<in> set (history_list r) \<Longrightarrow>
               \<exists>n. node_store r1 g = Some n \<and> is_evictable n \<and> length (history n) < lru_k r"
      using hl False len by (fastforce simp: r1_def node_def split: if_splits)
    moreover have "\<And>g. g \<in> set (cache_list r) \<Longrightarrow>
               \<exists>n. node_store r1 g = Some n \<and> is_evictable n \<and> \<not> length (history n) < lru_k r"
      using cl False len by (fastforce simp: r1_def node_def split: if_splits)
    ultimately show ?thesis
      using d by (simp add: replacer_inv_def r1_def)
  qed
qed


lemma SetEvictable_False_evictable:
  assumes "SetEvictable f False r = Inr r'"
  shows "evictable_frames r' = evictable_frames r - {f}"
  using assms
  by (auto simp: SetEvictable_def Let_def evictable_frames_def
      RemoveFromCacheList_def RemoveFromHistoryList_def split: if_splits option.splits)

lemma SetEvictable_True_evictable:
  assumes "SetEvictable f True r = Inr r'"
  shows "evictable_frames r' \<subseteq> insert f (evictable_frames r)"
  using assms
  by (auto simp: SetEvictable_def Let_def evictable_frames_def
      AddToCacheList_def AddToHistoryList_def split: if_splits option.splits)

lemma SetEvictable_inv:
  assumes se: "SetEvictable f b r = Inr r'" and inv: "replacer_inv r"
  shows "replacer_inv r'"
proof -
  from inv have d: "distinct (history_list r)" "distinct (cache_list r)"
    and hl: "\<And>g. g \<in> set (history_list r) \<Longrightarrow>
               \<exists>n. node_store r g = Some n \<and> is_evictable n \<and> length (history n) < lru_k r"
    and cl: "\<And>g. g \<in> set (cache_list r) \<Longrightarrow>
               \<exists>n. node_store r g = Some n \<and> is_evictable n \<and> \<not> length (history n) < lru_k r"
    by (auto simp: replacer_inv_def)
  show ?thesis
  proof (cases "node_store r f")
    case None
    with se inv show ?thesis by (auto simp: SetEvictable_def split: if_splits)
  next
    case (Some node)
    show ?thesis
    proof (cases "is_evictable node = b")
      case True
      with se Some inv show ?thesis by (auto simp: SetEvictable_def split: if_splits)
    next
      case False
      show ?thesis
      proof (cases b)
        case True
        with False have ne: "\<not> is_evictable node" by simp
        then have fh: "f \<notin> set (history_list r)" and fc: "f \<notin> set (cache_list r)"
          using hl [of f] cl [of f] Some by auto
        have h': "\<And>g. g \<in> set (history_list r') \<Longrightarrow>
               \<exists>n. node_store r' g = Some n \<and> is_evictable n \<and> length (history n) < lru_k r'"
          using se Some ne True hl fh
          by (auto simp: SetEvictable_def Let_def AddToHistoryList_def AddToCacheList_def
              split: if_splits)
        have c': "\<And>g. g \<in> set (cache_list r') \<Longrightarrow>
               \<exists>n. node_store r' g = Some n \<and> is_evictable n \<and> \<not> length (history n) < lru_k r'"
          using se Some ne True cl fc
          by (auto simp: SetEvictable_def Let_def AddToHistoryList_def AddToCacheList_def
              split: if_splits)
        have "distinct (history_list r')" "distinct (cache_list r')"
          using se Some ne True d fh fc
          by (auto simp: SetEvictable_def Let_def AddToHistoryList_def AddToCacheList_def
              split: if_splits)
        with h' c' show ?thesis by (simp add: replacer_inv_def)
      next
        case bF: False
        with False have ev: "is_evictable node" by simp
        have sh: "set (remove1 f (history_list r)) = set (history_list r) - {f}"
          using d(1) by (rule set_remove1_eq)
        have sc: "set (remove1 f (cache_list r)) = set (cache_list r) - {f}"
          using d(2) by (rule set_remove1_eq)
        have disj: "f \<in> set (history_list r) \<Longrightarrow> f \<notin> set (cache_list r)"
          using hl [of f] cl [of f] by auto
        have h': "\<And>g. g \<in> set (history_list r') \<Longrightarrow>
               \<exists>n. node_store r' g = Some n \<and> is_evictable n \<and> length (history n) < lru_k r'"
          using se Some ev bF hl
          by (auto simp: SetEvictable_def Let_def RemoveFromHistoryList_def RemoveFromCacheList_def sh
              split: if_splits)
        have c': "\<And>g. g \<in> set (cache_list r') \<Longrightarrow>
               \<exists>n. node_store r' g = Some n \<and> is_evictable n \<and> \<not> length (history n) < lru_k r'"
          using se Some ev bF cl disj
          by (auto simp: SetEvictable_def Let_def RemoveFromHistoryList_def RemoveFromCacheList_def sc
              split: if_splits)
        have "distinct (history_list r')" "distinct (cache_list r')"
          using se Some ev bF d
          by (auto simp: SetEvictable_def Let_def RemoveFromHistoryList_def RemoveFromCacheList_def
              split: if_splits)
        with h' c' show ?thesis by (simp add: replacer_inv_def)
      qed
    qed
  qed
qed

lemma Remove_evictable:
  assumes "Remove f r = Inr r'"
  shows "evictable_frames r' = evictable_frames r - {f}"
  using assms
  by (auto simp: Remove_def Let_def evictable_frames_def
      RemoveFromCacheList_def RemoveFromHistoryList_def split: if_splits option.splits)

lemma Remove_inv:
  assumes rm: "Remove f r = Inr r'" and inv: "replacer_inv r"
  shows "replacer_inv r'"
proof -
  from inv have d: "distinct (history_list r)" "distinct (cache_list r)"
    and hl: "\<And>g. g \<in> set (history_list r) \<Longrightarrow>
               \<exists>n. node_store r g = Some n \<and> is_evictable n \<and> length (history n) < lru_k r"
    and cl: "\<And>g. g \<in> set (cache_list r) \<Longrightarrow>
               \<exists>n. node_store r g = Some n \<and> is_evictable n \<and> \<not> length (history n) < lru_k r"
    by (auto simp: replacer_inv_def)
  show ?thesis
  proof (cases "node_store r f")
    case None
    with rm inv show ?thesis by (auto simp: Remove_def split: if_splits)
  next
    case (Some node)
    have sh: "set (remove1 f (history_list r)) = set (history_list r) - {f}"
      using d(1) by (rule set_remove1_eq)
    have sc: "set (remove1 f (cache_list r)) = set (cache_list r) - {f}"
      using d(2) by (rule set_remove1_eq)
    have fh: "\<not> length (history node) < lru_k r \<Longrightarrow> f \<notin> set (history_list r)"
      using hl [of f] Some by auto
    have fc: "length (history node) < lru_k r \<Longrightarrow> f \<notin> set (cache_list r)"
      using cl [of f] Some by auto
    have h': "\<And>g. g \<in> set (history_list r') \<Longrightarrow>
               \<exists>n. node_store r' g = Some n \<and> is_evictable n \<and> length (history n) < lru_k r'"
      using rm Some hl fh
      by (auto simp: Remove_def Let_def RemoveFromHistoryList_def RemoveFromCacheList_def sh
          split: if_splits)
    have c': "\<And>g. g \<in> set (cache_list r') \<Longrightarrow>
               \<exists>n. node_store r' g = Some n \<and> is_evictable n \<and> \<not> length (history n) < lru_k r'"
      using rm Some cl fc
      by (auto simp: Remove_def Let_def RemoveFromHistoryList_def RemoveFromCacheList_def sc
          split: if_splits)
    have "distinct (history_list r')" "distinct (cache_list r')"
      using rm Some d
      by (auto simp: Remove_def Let_def RemoveFromHistoryList_def RemoveFromCacheList_def
          split: if_splits)
    with h' c' show ?thesis by (simp add: replacer_inv_def)
  qed
qed

lemma scan_cache_victim:
  "scan_cache ns fs (v, e) = Inr (v', e') \<Longrightarrow> v' \<in> set fs \<or> v' = v"
  by (induction fs arbitrary: v e) (auto simp: Let_def split: option.splits if_splits)

lemma Evict_None: "Evict r = Inr (None, r') \<Longrightarrow> r' = r"
  by (auto simp: Evict_def Let_def split: if_splits sum.splits prod.splits)

lemma Evict_evictable:
  assumes "Evict r = Inr (Some f, r')"
  shows "evictable_frames r' = evictable_frames r - {f}"
  using assms
  by (auto simp: Evict_def Let_def evictable_frames_def RemoveFromCacheList_def
      split: if_splits sum.splits prod.splits)

lemma Evict_victim:
  assumes ev: "Evict r = Inr (Some f, r')" and inv: "replacer_inv r"
  shows "f \<in> evictable_frames r \<or> f = -1"
proof -
  from inv have hl: "\<And>g. g \<in> set (history_list r) \<Longrightarrow> g \<in> evictable_frames r"
    and cl: "\<And>g. g \<in> set (cache_list r) \<Longrightarrow> g \<in> evictable_frames r"
    by (auto simp: replacer_inv_def evictable_frames_def)
  show ?thesis
  proof (cases "history_list r = []")
    case False
    then have "last (history_list r) \<in> set (history_list r)" by simp
    with ev False hl show ?thesis
      by (auto simp: Evict_def Let_def split: if_splits)
  next
    case True
    with ev obtain ts where "scan_cache (node_store r) (cache_list r) (-1, SIZE_MAX) = Inr (f, ts)"
      by (auto simp: Evict_def Let_def split: if_splits sum.splits prod.splits)
    from scan_cache_victim [OF this] cl show ?thesis by auto
  qed
qed

lemma Evict_inv:
  assumes ev: "Evict r = Inr (Some f, r')" and inv: "replacer_inv r"
  shows "replacer_inv r'"
proof -
  from inv have d: "distinct (history_list r)" "distinct (cache_list r)"
    and hl: "\<And>g. g \<in> set (history_list r) \<Longrightarrow>
               \<exists>n. node_store r g = Some n \<and> is_evictable n \<and> length (history n) < lru_k r"
    and cl: "\<And>g. g \<in> set (cache_list r) \<Longrightarrow>
               \<exists>n. node_store r g = Some n \<and> is_evictable n \<and> \<not> length (history n) < lru_k r"
    by (auto simp: replacer_inv_def)
  show ?thesis
  proof (cases "history_list r = []")
    case False
    then have fl: "f = last (history_list r)"
      and r': "r' = r\<lparr>history_list := butlast (history_list r),
                       node_store := (node_store r)(f := None),
                       curr_size := curr_size r - 1\<rparr>"
      using ev by (auto simp: Evict_def Let_def split: if_splits)
    from False have app: "history_list r = butlast (history_list r) @ [f]"
      by (simp add: fl)
    with d(1) have fnb: "f \<notin> set (butlast (history_list r))"
      by (metis distinct_append distinct.simps(2) disjoint_iff list.set_intros(1))
    have fin: "f \<in> set (history_list r)" using False fl by simp
    have fc: "f \<notin> set (cache_list r)" using hl [OF fin] cl [of f] by auto
    have h': "\<And>g. g \<in> set (history_list r') \<Longrightarrow>
               \<exists>n. node_store r' g = Some n \<and> is_evictable n \<and> length (history n) < lru_k r'"
      using hl fnb by (auto simp: r' dest: in_set_butlastD)
    have c': "\<And>g. g \<in> set (cache_list r') \<Longrightarrow>
               \<exists>n. node_store r' g = Some n \<and> is_evictable n \<and> \<not> length (history n) < lru_k r'"
      using cl fc by (auto simp: r')
    have "distinct (history_list r')" "distinct (cache_list r')"
      using d by (simp_all add: r' distinct_butlast)
    with h' c' show ?thesis by (simp add: replacer_inv_def)
  next
    case True
    then obtain ts where
      r': "r' = (RemoveFromCacheList f r)\<lparr>node_store := (node_store r)(f := None),
                                                curr_size := curr_size r - 1\<rparr>"
      using ev by (auto simp: Evict_def Let_def split: if_splits sum.splits prod.splits)
    have sc: "set (remove1 f (cache_list r)) = set (cache_list r) - {f}"
      using d(2) by (rule set_remove1_eq)
    have c': "\<And>g. g \<in> set (cache_list r') \<Longrightarrow>
               \<exists>n. node_store r' g = Some n \<and> is_evictable n \<and> \<not> length (history n) < lru_k r'"
      using cl by (auto simp: r' RemoveFromCacheList_def sc)
    have "distinct (history_list r')" "distinct (cache_list r')" "history_list r' = []"
      using d True by (simp_all add: r' RemoveFromCacheList_def)
    with c' show ?thesis by (simp add: replacer_inv_def)
  qed
qed

lemma bpm_inv_init: "bpm_inv (BufferPoolManagerInstance_init n b k d)"
  by (auto simp: bpm_inv_def table_frames_agree_def BufferPoolManagerInstance_init_def
      replacer_inv_init evictable_init frame_ok_def distinct_map inj_on_def)

lemma install_inv:
  assumes hole: "hole_inv f s1"
    and miss: "page_table s1 pid = None"
    and tbl: "page_table s' = (page_table s1)(pid \<mapsto> f)"
    and len: "length (pages s') = length (pages s1)"
    and oth: "\<And>i. i < length (pages s1) \<Longrightarrow> i \<noteq> nat f \<Longrightarrow>
                page_id (pages s' ! i) = page_id (pages s1 ! i)"
    and new: "page_id (pages s' ! nat f) = pid"
    and fl: "free_list s' = free_list s1"
    and ri: "replacer_inv (replacer s')"
    and ev: "evictable_frames (replacer s') \<subseteq> evictable_frames (replacer s1)"
    and nx: "next_page_id s1 \<le> next_page_id s'" "pid < next_page_id s'"
  shows "bpm_inv s'"
proof -
  from hole have fok: "frame_ok s1 f" and fnot: "\<And>p. page_table s1 p \<noteq> Some f"
    and A: "\<And>p g. page_table s1 p = Some g \<Longrightarrow> frame_ok s1 g \<and> page_id (pages s1 ! nat g) = p"
    and B: "\<And>i. i < length (pages s1) \<Longrightarrow> i \<noteq> nat f \<Longrightarrow> page_id (pages s1 ! i) \<noteq> INVALID_PAGE_ID \<Longrightarrow>
           page_table s1 (page_id (pages s1 ! i)) = Some (int i)"
    and C: "\<And>p g. page_table s1 p = Some g \<Longrightarrow> p < next_page_id s1"
    and D: "distinct (free_list s1)" and ffree: "f \<notin> set (free_list s1)"
    and E: "\<And>g. g \<in> set (free_list s1) \<Longrightarrow> frame_ok s1 g \<and> (\<forall>p. page_table s1 p \<noteq> Some g)"
    and G: "\<And>g. g \<in> evictable_frames (replacer s1) \<Longrightarrow> \<exists>p. page_table s1 p = Some g"
    by (auto simp: hole_inv_def)
  have ok: "\<And>g. frame_ok s' g = frame_ok s1 g" by (simp add: frame_ok_def len)
  have A': "\<And>p g. page_table s' p = Some g \<Longrightarrow> frame_ok s' g \<and> page_id (pages s' ! nat g) = p"
  proof -
    fix p g assume pg: "page_table s' p = Some g"
    show "frame_ok s' g \<and> page_id (pages s' ! nat g) = p"
    proof (cases "p = pid")
      case True
      with pg tbl have "g = f" by simp
      with True fok new show ?thesis by (simp add: ok)
    next
      case False
      with pg tbl have old: "page_table s1 p = Some g" by simp
      from A [OF old] have gok: "frame_ok s1 g" and pidg: "page_id (pages s1 ! nat g) = p" by auto
      have "g \<noteq> f" using old fnot by auto
      with gok fok have "nat g \<noteq> nat f" by (auto simp: frame_ok_def)
      with oth [of "nat g"] gok pidg len show ?thesis by (simp add: frame_ok_def)
    qed
  qed
  have B': "\<And>i. i < length (pages s') \<Longrightarrow> page_id (pages s' ! i) \<noteq> INVALID_PAGE_ID \<Longrightarrow>
           page_table s' (page_id (pages s' ! i)) = Some (int i)"
  proof -
    fix i assume i: "i < length (pages s')" and v: "page_id (pages s' ! i) \<noteq> INVALID_PAGE_ID"
    show "page_table s' (page_id (pages s' ! i)) = Some (int i)"
    proof (cases "i = nat f")
      case True
      with new tbl fok show ?thesis by (simp add: frame_ok_def)
    next
      case False
      with i len oth [of i] have e: "page_id (pages s' ! i) = page_id (pages s1 ! i)" by simp
      with B [of i] i len False v have o: "page_table s1 (page_id (pages s1 ! i)) = Some (int i)" by simp
      with miss have "page_id (pages s1 ! i) \<noteq> pid" by auto
      with o e tbl show ?thesis by simp
    qed
  qed
  have C': "\<And>p g. page_table s' p = Some g \<Longrightarrow> p < next_page_id s'"
    using C nx tbl by (force split: if_splits)
  have E': "\<And>g. g \<in> set (free_list s') \<Longrightarrow> frame_ok s' g \<and> (\<forall>p. page_table s' p \<noteq> Some g)"
    using E ffree fl tbl by (auto simp: ok)
  have G': "\<And>g. g \<in> evictable_frames (replacer s') \<Longrightarrow> \<exists>p. page_table s' p = Some g"
  proof -
    fix g assume "g \<in> evictable_frames (replacer s')"
    with ev G obtain p where p: "page_table s1 p = Some g" by blast
    with miss have "p \<noteq> pid" by auto
    with p tbl show "\<exists>p. page_table s' p = Some g" by auto
  qed
  show ?thesis
    unfolding bpm_inv_def table_frames_agree_def
    using A' B' C' D fl E' ri G' by auto
qed

lemma touch_frame_effect:
  assumes "touch_frame f s = Inr s'"
  shows "\<exists>r'. s' = s\<lparr>replacer := r'\<rparr> \<and>
           (replacer_inv (replacer s) \<longrightarrow> replacer_inv r') \<and>
           evictable_frames r' = evictable_frames (replacer s) - {f}"
proof -
  from assms obtain r1 r2 where r1: "RecordAccess f (replacer s) = Inr r1"
    and r2: "SetEvictable f False r1 = Inr r2" and s': "s' = s\<lparr>replacer := r2\<rparr>"
    by (auto simp: touch_frame_def ebind_def split: sum.splits)
  have "evictable_frames r2 = evictable_frames (replacer s) - {f}"
    using SetEvictable_False_evictable [OF r2] RecordAccess_evictable [OF r1] by simp
  moreover have "replacer_inv (replacer s) \<longrightarrow> replacer_inv r2"
    using RecordAccess_inv [OF r1] SetEvictable_inv [OF r2] by blast
  ultimately show ?thesis using s' by blast
qed

lemma find_frame_None:
  assumes "find_frame s = Inr (None, s1)"
  shows "s1 = s"
  using assms Evict_None
  by (auto simp: find_frame_def ebind_def Let_def
      split: list.splits sum.splits option.splits if_splits)

lemma write_back_fields:
  "page_table (write_back f s) = page_table s"
  "free_list (write_back f s) = free_list s"
  "replacer (write_back f s) = replacer s"
  "next_page_id (write_back f s) = next_page_id s"
  "length (pages (write_back f s)) = length (pages s)"
  "i < length (pages s) \<Longrightarrow> page_id (pages (write_back f s) ! i) = page_id (pages s ! i)"
  by (auto simp: write_back_def Let_def nth_list_update split: if_splits)
     (cases "nat f = i"; simp)+

lemma find_frame_hole:
  assumes inv: "bpm_inv s" and ff: "find_frame s = Inr (Some f, s1)"
  shows "hole_inv f s1 \<and> next_page_id s1 = next_page_id s \<and>
         (\<forall>p. page_table s p = None \<longrightarrow> page_table s1 p = None)"
proof -
  from inv have A: "\<And>p g. page_table s p = Some g \<Longrightarrow> frame_ok s g \<and> page_id (pages s ! nat g) = p"
    and B: "\<And>i. i < length (pages s) \<Longrightarrow> page_id (pages s ! i) \<noteq> INVALID_PAGE_ID \<Longrightarrow>
           page_table s (page_id (pages s ! i)) = Some (int i)"
    and C: "\<And>p g. page_table s p = Some g \<Longrightarrow> p < next_page_id s"
    and D: "distinct (free_list s)"
    and E: "\<And>g. g \<in> set (free_list s) \<Longrightarrow> frame_ok s g \<and> (\<forall>p. page_table s p \<noteq> Some g)"
    and F: "replacer_inv (replacer s)"
    and G: "\<And>g. g \<in> evictable_frames (replacer s) \<Longrightarrow> \<exists>p. page_table s p = Some g"
    by (auto simp: bpm_inv_def table_frames_agree_def)
  show ?thesis
  proof (cases "free_list s")
    case (Cons f' fl)
    with ff have f: "f' = f" and s1: "s1 = s\<lparr>free_list := fl\<rparr>"
      by (auto simp: find_frame_def)
    from Cons f D have ffl: "f \<notin> set fl" "distinct fl" by auto
    from E [of f] Cons f have fe: "frame_ok s f" "\<And>p. page_table s p \<noteq> Some f" by auto
    then have "f \<notin> evictable_frames (replacer s)" using G by blast
    with ffl fe A B C E F G Cons show ?thesis
      by (auto simp: hole_inv_def s1 frame_ok_def)
  next
    case Nil
    with ff obtain r' where ev: "Evict (replacer s) = Inr (Some f, r')" and fok: "frame_ok s f"
      and s1: "s1 = (write_back f (s\<lparr>replacer := r'\<rparr>))
                      \<lparr>page_table := (page_table s)(page_id (pages s ! nat f) := None)\<rparr>"
      by (auto simp: find_frame_def ebind_def Let_def write_back_fields
          split: sum.splits option.splits if_splits)
    have r'inv: "replacer_inv r'" by (rule Evict_inv [OF ev F])
    have r'ev: "evictable_frames r' = evictable_frames (replacer s) - {f}"
      by (rule Evict_evictable [OF ev])
    from Evict_victim [OF ev F] fok have fev: "f \<in> evictable_frames (replacer s)"
      by (auto simp: frame_ok_def)
    from G [OF fev] obtain p0 where p0: "page_table s p0 = Some f" by blast
    from A [OF p0] have pf: "page_id (pages s ! nat f) = p0" by simp
    have uniq: "\<And>p g. page_table s p = Some g \<Longrightarrow> g = f \<Longrightarrow> p = p0"
      using A pf by auto
    have pgs: "length (pages s1) = length (pages s)"
       "\<And>i. i < length (pages s) \<Longrightarrow> page_id (pages s1 ! i) = page_id (pages s ! i)"
      by (simp_all add: s1 write_back_fields)
    have flds: "page_table s1 = (page_table s)(p0 := None)" "free_list s1 = []"
       "replacer s1 = r'" "next_page_id s1 = next_page_id s"
      using Nil by (simp_all add: s1 write_back_fields pf)
    have ok: "\<And>g. frame_ok s1 g = frame_ok s g" by (simp add: frame_ok_def pgs)
    have h1: "\<And>p. page_table s1 p \<noteq> Some f"
      using uniq by (auto simp: flds)
    have h2: "\<And>p g. page_table s1 p = Some g \<Longrightarrow> frame_ok s1 g \<and> page_id (pages s1 ! nat g) = p"
      using A by (auto simp: flds ok pgs frame_ok_def split: if_splits)
    have h3: "\<And>i. i < length (pages s1) \<Longrightarrow> i \<noteq> nat f \<Longrightarrow> page_id (pages s1 ! i) \<noteq> INVALID_PAGE_ID \<Longrightarrow>
           page_table s1 (page_id (pages s1 ! i)) = Some (int i)"
    proof -
      fix i assume i: "i < length (pages s1)" "i \<noteq> nat f" "page_id (pages s1 ! i) \<noteq> INVALID_PAGE_ID"
      then have o: "page_table s (page_id (pages s ! i)) = Some (int i)"
        using B [of i] by (simp add: pgs)
      have "int i \<noteq> f" using i(2) by auto
      with o p0 have "page_id (pages s ! i) \<noteq> p0" by auto
      with o i show "page_table s1 (page_id (pages s1 ! i)) = Some (int i)"
        by (simp add: flds pgs)
    qed
    have h4: "\<And>p g. page_table s1 p = Some g \<Longrightarrow> p < next_page_id s1"
      using C by (auto simp: flds split: if_splits)
    have h5: "\<And>g. g \<in> evictable_frames (replacer s1) \<Longrightarrow> \<exists>p. page_table s1 p = Some g"
    proof -
      fix g assume "g \<in> evictable_frames (replacer s1)"
      then have g: "g \<in> evictable_frames (replacer s)" "g \<noteq> f" by (auto simp: flds r'ev)
      from G [OF g(1)] obtain p where p: "page_table s p = Some g" by blast
      with p0 g(2) have "p \<noteq> p0" by auto
      with p show "\<exists>p. page_table s1 p = Some g" by (auto simp: flds)
    qed
    have "hole_inv f s1"
      unfolding hole_inv_def
      using fok h1 h2 h3 h4 h5 r'inv r'ev by (auto simp: ok flds)
    then show ?thesis by (auto simp: flds)
  qed
qed

text \<open>An invariant only depends on these components of the state.\<close>

lemma bpm_inv_cong:
  assumes inv: "bpm_inv s"
    and "page_table s' = page_table s" "free_list s' = free_list s" "replacer s' = replacer s"
    and "next_page_id s' = next_page_id s" "length (pages s') = length (pages s)"
    and "\<And>i. i < length (pages s) \<Longrightarrow> page_id (pages s' ! i) = page_id (pages s ! i)"
  shows "bpm_inv s'"
  using assms
  unfolding bpm_inv_def table_frames_agree_def frame_ok_def
  by simp

lemma nth_update_page_id:
  "page_id pg = page_id (xs ! j) \<Longrightarrow> i < length xs \<Longrightarrow>
   page_id (xs[j := pg] ! i) = page_id (xs ! i)"
  by (cases "i = j") simp_all

lemma map_update_same: "(map f xs)[i := f (xs ! i)] = map f xs"
  by (cases "i < length xs") (simp_all add: list_update_same_conv list_update_beyond)

lemma NewPgImp_inv:
  assumes inv: "bpm_inv s" and op: "NewPgImp s = Inr (res, s')"
  shows "bpm_inv s'"
proof -
  from op obtain found s1 where ff: "find_frame s = Inr (found, s1)"
    by (auto simp: NewPgImp_def ebind_def split: sum.splits)
  show ?thesis
  proof (cases found)
    case None
    with ff op have "s' = s1" by (simp add: NewPgImp_def ebind_def)
    with find_frame_None ff None inv show ?thesis by auto
  next
    case (Some f)
    from find_frame_hole [OF inv] ff Some have hole: "hole_inv f s1"
      and nx: "next_page_id s1 = next_page_id s" by auto
    let ?s2 = "s1\<lparr>next_page_id := next_page_id s1 + 1,
                   page_table := (page_table s1)(next_page_id s1 \<mapsto> f)\<rparr>"
    from op ff Some obtain s3 where t: "touch_frame f ?s2 = Inr s3"
      and s': "s' = s3\<lparr>pages := (pages s3)
                 [nat f := (ResetMemory (pages s3 ! nat f))
                    \<lparr>page_id := next_page_id s1, pin_count := 1, is_dirty := False\<rparr>]\<rparr>"
      and ok3: "frame_ok s3 f"
      by (auto simp: NewPgImp_def ebind_def Let_def split: sum.splits if_splits)
    from touch_frame_effect [OF t] obtain r' where s3: "s3 = ?s2\<lparr>replacer := r'\<rparr>"
      and ri: "replacer_inv (replacer ?s2) \<longrightarrow> replacer_inv r'"
      and ev: "evictable_frames r' = evictable_frames (replacer ?s2) - {f}" by blast
    have miss: "page_table s1 (next_page_id s1) = None"
      using hole by (force simp: hole_inv_def)
    show ?thesis
    proof (rule install_inv [OF hole miss])
      show "page_table s' = (page_table s1)(next_page_id s1 \<mapsto> f)" by (simp add: s' s3)
      show "length (pages s') = length (pages s1)" by (simp add: s' s3)
      show "\<And>i. i < length (pages s1) \<Longrightarrow> i \<noteq> nat f \<Longrightarrow>
                page_id (pages s' ! i) = page_id (pages s1 ! i)" by (simp add: s' s3)
      show "page_id (pages s' ! nat f) = next_page_id s1"
        using ok3 by (simp add: s' s3 frame_ok_def)
      show "free_list s' = free_list s1" by (simp add: s' s3)
      show "replacer_inv (replacer s')" using ri hole by (simp add: s' s3 hole_inv_def)
      show "evictable_frames (replacer s') \<subseteq> evictable_frames (replacer s1)"
        using ev by (auto simp: s' s3)
      show "next_page_id s1 \<le> next_page_id s'" "next_page_id s1 < next_page_id s'"
        by (simp_all add: s' s3)
    qed
  qed
qed

lemma FetchPgImp_inv:
  assumes inv: "bpm_inv s" and alloc: "pid < next_page_id s" and op: "FetchPgImp pid s = Inr (res, s')"
  shows "bpm_inv s'"
proof (cases "page_table s pid")
  case (Some f)
  let ?s1 = "s\<lparr>pages := (pages s)[nat f := (pages s ! nat f)
                  \<lparr>pin_count := pin_count (pages s ! nat f) + 1\<rparr>]\<rparr>"
  from op Some have t: "touch_frame f ?s1 = Inr s'" and fok: "frame_ok s f"
    by (auto simp: FetchPgImp_def ebind_def Let_def split: sum.splits if_splits)
  have i1: "bpm_inv ?s1"
    by (rule bpm_inv_cong [OF inv]) (simp_all add: nth_update_page_id)
  from touch_frame_effect [OF t] obtain r' where s': "s' = ?s1\<lparr>replacer := r'\<rparr>"
    and ri: "replacer_inv (replacer ?s1) \<longrightarrow> replacer_inv r'"
    and ev: "evictable_frames r' = evictable_frames (replacer ?s1) - {f}" by blast
  from i1 ri ev show ?thesis
    unfolding bpm_inv_def table_frames_agree_def frame_ok_def
    by (simp add: s')
next
  case None
  from op None obtain found s1 where ff: "find_frame s = Inr (found, s1)"
    by (auto simp: FetchPgImp_def ebind_def split: sum.splits)
  show ?thesis
  proof (cases found)
    case fNone: None
    with ff op None have "s' = s1" by (simp add: FetchPgImp_def ebind_def)
    with find_frame_None ff fNone inv show ?thesis by auto
  next
    case (Some f)
    from find_frame_hole [OF inv] ff Some None have hole: "hole_inv f s1"
      and nx: "next_page_id s1 = next_page_id s" and miss: "page_table s1 pid = None" by auto
    let ?s3 = "s1\<lparr>pages := (pages s1)[nat f := (pages s1 ! nat f)\<lparr>data := disk s1 pid\<rparr>],
                   disk_log := disk_log s1 @ [ReadPage pid],
                   page_table := (page_table s1)(pid \<mapsto> f)\<rparr>"
    from op ff Some None obtain s4 where t: "touch_frame f ?s3 = Inr s4"
      and s': "s' = s4\<lparr>pages := (pages s4)
                 [nat f := (pages s4 ! nat f)
                    \<lparr>page_id := pid, pin_count := 1, is_dirty := False\<rparr>]\<rparr>"
      and ok1: "frame_ok s1 f"
      by (auto simp: FetchPgImp_def ebind_def Let_def split: sum.splits if_splits)
    from touch_frame_effect [OF t] obtain r' where s4: "s4 = ?s3\<lparr>replacer := r'\<rparr>"
      and ri: "replacer_inv (replacer ?s3) \<longrightarrow> replacer_inv r'"
      and ev: "evictable_frames r' = evictable_frames (replacer ?s3) - {f}" by blast
    show ?thesis
    proof (rule install_inv [OF hole miss])
      show "page_table s' = (page_table s1)(pid \<mapsto> f)" by (simp add: s' s4)
      show "length (pages s') = length (pages s1)" by (simp add: s' s4)
      show "\<And>i. i < length (pages s1) \<Longrightarrow> i \<noteq> nat f \<Longrightarrow>
                page_id (pages s' ! i) = page_id (pages s1 ! i)" by (simp add: s' s4)
      show "page_id (pages s' ! nat f) = pid"
        using ok1 by (simp add: s' s4 frame_ok_def)
      show "free_list s' = free_list s1" by (simp add: s' s4)
      show "replacer_inv (replacer s')" using ri hole by (simp add: s' s4 hole_inv_def)
      show "evictable_frames (replacer s') \<subseteq> evictable_frames (replacer s1)"
        using ev by (auto simp: s' s4)
      show "next_page_id s1 \<le> next_page_id s'" "pid < next_page_id s'"
        using alloc nx by (simp_all add: s' s4)
    qed
  qed
qed

lemma UnpinPgImp_inv:
  assumes inv: "bpm_inv s" and op: "UnpinPgImp pid dirty s = Inr (ok, s')"
  shows "bpm_inv s'"
proof (cases "page_table s pid")
  case None
  with op inv show ?thesis by (simp add: UnpinPgImp_def)
next
  case (Some f)
  show ?thesis
  proof (cases "pin_count (pages s ! nat f) = 0")
    case True
    with op Some inv show ?thesis by (auto simp: UnpinPgImp_def split: if_splits)
  next
    case False
    define pg2 where "pg2 = (if dirty then (pages s ! nat f)\<lparr>pin_count := pin_count (pages s ! nat f) - 1,
                                 is_dirty := True\<rparr>
                             else (pages s ! nat f)\<lparr>pin_count := pin_count (pages s ! nat f) - 1\<rparr>)"
    let ?s1 = "s\<lparr>pages := (pages s)[nat f := pg2]\<rparr>"
    have pid2: "page_id pg2 = page_id (pages s ! nat f)" by (simp add: pg2_def)
    have i1: "bpm_inv ?s1"
      by (rule bpm_inv_cong [OF inv]) (simp_all add: nth_update_page_id pid2)
    from op Some False have fok: "frame_ok s f"
      by (auto simp: UnpinPgImp_def split: if_splits)
    from op Some False fok have
      "s' = ?s1 \<or> (\<exists>r1. SetEvictable f True (replacer s) = Inr r1 \<and> s' = ?s1\<lparr>replacer := r1\<rparr>)"
      by (auto simp: UnpinPgImp_def Let_def ebind_def pg2_def split: if_splits sum.splits)
    then show ?thesis
    proof
      assume "s' = ?s1" with i1 show ?thesis by simp
    next
      assume "\<exists>r1. SetEvictable f True (replacer s) = Inr r1 \<and> s' = ?s1\<lparr>replacer := r1\<rparr>"
      then obtain r1 where se: "SetEvictable f True (replacer s) = Inr r1"
        and s': "s' = ?s1\<lparr>replacer := r1\<rparr>" by blast
      have ri: "replacer_inv r1" using SetEvictable_inv [OF se] inv by (simp add: bpm_inv_def)
      have ev: "evictable_frames r1 \<subseteq> insert f (evictable_frames (replacer s))"
        by (rule SetEvictable_True_evictable [OF se])
      have "\<forall>g \<in> evictable_frames r1. \<exists>p. page_table s p = Some g"
        using ev Some inv by (auto simp: bpm_inv_def)
      with i1 ri show ?thesis
        unfolding bpm_inv_def table_frames_agree_def frame_ok_def
        by (simp add: s')
    qed
  qed
qed

lemma FlushPgImp_inv:
  assumes inv: "bpm_inv s" and op: "FlushPgImp pid s = Inr (ok, s')"
  shows "bpm_inv s'"
proof (cases "page_table s pid")
  case None
  with op inv show ?thesis by (simp add: FlushPgImp_def)
next
  case (Some f)
  with op have s': "s' = s\<lparr>disk := (disk s)(pid := data (pages s ! nat f)),
                    disk_log := disk_log s @ [WritePage pid (data (pages s ! nat f))],
                    pages := (pages s)[nat f := (pages s ! nat f)\<lparr>is_dirty := False\<rparr>]\<rparr>"
    by (auto simp: FlushPgImp_def Let_def split: if_splits)
  show ?thesis
    by (rule bpm_inv_cong [OF inv]) (simp_all add: s' nth_update_page_id)
qed

lemma flush_frame_fields:
  "page_table (flush_frame i s) = page_table s"
  "free_list (flush_frame i s) = free_list s"
  "replacer (flush_frame i s) = replacer s"
  "next_page_id (flush_frame i s) = next_page_id s"
  "map page_id (pages (flush_frame i s)) = map page_id (pages s)"
  by (simp_all add: flush_frame_def Let_def map_update map_update_same)

lemma flush_loop_fields:
  "page_table (flush_loop is s) = page_table s \<and>
   free_list (flush_loop is s) = free_list s \<and>
   replacer (flush_loop is s) = replacer s \<and>
   next_page_id (flush_loop is s) = next_page_id s \<and>
   map page_id (pages (flush_loop is s)) = map page_id (pages s)"
  by (induction "is" arbitrary: s) (simp_all add: flush_frame_fields)

lemma FlushAllPgsImp_inv:
  assumes inv: "bpm_inv s"
  shows "bpm_inv (FlushAllPgsImp s)"
proof -
  let ?s' = "flush_loop [0 ..< length (pages s)] s"
  have m: "map page_id (pages ?s') = map page_id (pages s)"
    using flush_loop_fields by blast
  then have len: "length (pages ?s') = length (pages s)" by (rule map_eq_imp_length_eq)
  have nth: "\<And>i. i < length (pages s) \<Longrightarrow> page_id (pages ?s' ! i) = page_id (pages s ! i)"
    using m len by (metis nth_map)
  show ?thesis
    unfolding FlushAllPgsImp_def
    by (rule bpm_inv_cong [OF inv]) (use flush_loop_fields len nth in auto)
qed

lemma DeletePgImp_inv:
  assumes inv: "bpm_inv s" and op: "DeletePgImp pid s = Inr (ok, s')"
  shows "bpm_inv s'"
proof (cases "page_table s pid")
  case None
  with op have s': "s' = s\<lparr>disk_log := disk_log s @ [DeallocatePage pid]\<rparr>"
    by (simp add: DeletePgImp_def)
  show ?thesis by (rule bpm_inv_cong [OF inv]) (simp_all add: s')
next
  case (Some f)
  from inv have A: "\<And>p g. page_table s p = Some g \<Longrightarrow> frame_ok s g \<and> page_id (pages s ! nat g) = p"
    and B: "\<And>i. i < length (pages s) \<Longrightarrow> page_id (pages s ! i) \<noteq> INVALID_PAGE_ID \<Longrightarrow>
           page_table s (page_id (pages s ! i)) = Some (int i)"
    and C: "\<And>p g. page_table s p = Some g \<Longrightarrow> p < next_page_id s"
    and D: "distinct (free_list s)"
    and E: "\<And>g. g \<in> set (free_list s) \<Longrightarrow> frame_ok s g \<and> (\<forall>p. page_table s p \<noteq> Some g)"
    and F: "replacer_inv (replacer s)"
    and G: "\<And>g. g \<in> evictable_frames (replacer s) \<Longrightarrow> \<exists>p. page_table s p = Some g"
    by (auto simp: bpm_inv_def table_frames_agree_def)
  show ?thesis
  proof (cases "pin_count (pages s ! nat f) > 0")
    case True
    with op Some inv show ?thesis by (auto simp: DeletePgImp_def split: if_splits)
  next
    case False
    with op Some obtain r1 where rm: "Remove f (replacer s) = Inr r1" and fok: "frame_ok s f"
      and s': "s' = s\<lparr>page_table := (page_table s)(pid := None), replacer := r1,
                       free_list := free_list s @ [f],
                       pages := (pages s)
                         [nat f := (ResetMemory (pages s ! nat f))
                            \<lparr>page_id := INVALID_PAGE_ID, pin_count := 0, is_dirty := False\<rparr>],
                       disk_log := disk_log s @ [DeallocatePage pid]\<rparr>"
      by (auto simp: DeletePgImp_def ebind_def Let_def split: if_splits sum.splits)
    have ri: "replacer_inv r1" by (rule Remove_inv [OF rm F])
    have ev: "evictable_frames r1 = evictable_frames (replacer s) - {f}"
      by (rule Remove_evictable [OF rm])
    have uniq: "\<And>p. page_table s p = Some f \<Longrightarrow> p = pid"
    proof -
      fix p assume "page_table s p = Some f"
      from A [OF this] A [OF Some] show "p = pid" by simp
    qed
    have ok: "\<And>g. frame_ok s' g = frame_ok s g" by (simp add: frame_ok_def s')
    have A': "\<And>p g. page_table s' p = Some g \<Longrightarrow> frame_ok s' g \<and> page_id (pages s' ! nat g) = p"
    proof -
      fix p g assume pg: "page_table s' p = Some g"
      then have old: "page_table s p = Some g" and ne: "p \<noteq> pid"
        by (auto simp: s' split: if_splits)
      with uniq have "g \<noteq> f" by auto
      moreover from A [OF old] have gok: "frame_ok s g" and pidg: "page_id (pages s ! nat g) = p" by auto
      ultimately have "nat g \<noteq> nat f" using fok by (auto simp: frame_ok_def)
      with gok pidg show "frame_ok s' g \<and> page_id (pages s' ! nat g) = p"
        by (simp add: ok) (simp add: s')
    qed
    have B': "\<And>i. i < length (pages s') \<Longrightarrow> page_id (pages s' ! i) \<noteq> INVALID_PAGE_ID \<Longrightarrow>
           page_table s' (page_id (pages s' ! i)) = Some (int i)"
    proof -
      fix i assume i: "i < length (pages s')" and v: "page_id (pages s' ! i) \<noteq> INVALID_PAGE_ID"
      from i v have nf: "i \<noteq> nat f" by (auto simp: s')
      with i v have e: "page_id (pages s' ! i) = page_id (pages s ! i)" by (simp add: s')
      with i v B [of i] have o: "page_table s (page_id (pages s ! i)) = Some (int i)" by (simp add: s')
      have "int i \<noteq> f" using nf by auto
      with o Some have "page_id (pages s ! i) \<noteq> pid" by auto
      with o e show "page_table s' (page_id (pages s' ! i)) = Some (int i)" by (simp add: s')
    qed
    have C': "\<And>p g. page_table s' p = Some g \<Longrightarrow> p < next_page_id s'"
      using C by (auto simp: s' split: if_splits)
    have fnf: "f \<notin> set (free_list s)" using E Some by auto
    have D': "distinct (free_list s')" using D fnf by (simp add: s')
    have E': "\<And>g. g \<in> set (free_list s') \<Longrightarrow> frame_ok s' g \<and> (\<forall>p. page_table s' p \<noteq> Some g)"
    proof -
      fix g assume g: "g \<in> set (free_list s')"
      have nt: "\<And>g. (\<forall>p. page_table s p \<noteq> Some g) \<Longrightarrow> (\<forall>p. page_table s' p \<noteq> Some g)"
        by (auto simp: s' split: if_splits)
      have nf: "\<forall>p. page_table s' p \<noteq> Some f"
        using uniq by (auto simp: s' split: if_splits)
      from g have "g \<in> set (free_list s) \<or> g = f" by (auto simp: s')
      then show "frame_ok s' g \<and> (\<forall>p. page_table s' p \<noteq> Some g)"
        using E [of g] nt [of g] nf fok by (auto simp: ok)
    qed
    have G': "\<And>g. g \<in> evictable_frames (replacer s') \<Longrightarrow> \<exists>p. page_table s' p = Some g"
    proof -
      fix g assume "g \<in> evictable_frames (replacer s')"
      then have g: "g \<in> evictable_frames (replacer s)" "g \<noteq> f" by (auto simp: s' ev)
      from G [OF g(1)] obtain p where p: "page_table s p = Some g" by blast
      with Some g(2) have "p \<noteq> pid" by auto
      with p show "\<exists>p. page_table s' p = Some g" by (auto simp: s')
    qed
    have "replacer_inv (replacer s')" using ri by (simp add: s')
    then show ?thesis
      unfolding bpm_inv_def table_frames_agree_def
      using A' B' C' D' E' G' by auto
  qed
qed

lemma bpm_reachable_inv: "bpm_reachable s \<Longrightarrow> bpm_inv s"
proof (induction rule: bpm_reachable.induct)
  case (start pool_size page_bytes replacer_k d)
  show ?case by (rule bpm_inv_init)
next
  case (NewPage s res s')
  then show ?case using NewPgImp_inv by blast
next
  case (FetchPage s pid fres s')
  then show ?case using FetchPgImp_inv by blast
next
  case (UnpinPage s pid dirty ok s')
  then show ?case using UnpinPgImp_inv by blast
next
  case (FlushPage s pid ok s')
  then show ?case using FlushPgImp_inv by blast
next
  case (FlushAllPages s)
  then show ?case using FlushAllPgsImp_inv by blast
next
  case (DeletePage s pid ok s')
  then show ?case using DeletePgImp_inv by blast
qed


lemma bpm_pinned_step:
  "NewPgImp (BufferPoolManagerInstance_init 1 4 2 (\<lambda>_. [])) = Inr (Some (0, 0), bpm_pinned)"
  by (simp add: bpm_pinned_eq) (simp add: bpm_defs eval_nat_numeral)

lemma bpm_dirty_step: "UnpinPgImp 0 True bpm_pinned = Inr (True, bpm_dirty)"
  by (simp add: bpm_dirty_eq) (simp add: bpm_pinned_eq bpm_defs)


lemma bpm_fetched0_eq:
  "FetchPgImp 0 (BufferPoolManagerInstance_init 2 4 2 (\<lambda>_. [])) = Inr (Some 0, bpm_fetched0)"
  by (simp add: bpm_fetched0_def bpm_defs eval_nat_numeral)

lemma bpm_clash_eq: "NewPgImp bpm_fetched0 = Inr (Some (0, 1), bpm_clash)"
  by (simp add: bpm_clash_def bpm_fetched0_def bpm_defs eval_nat_numeral)


section \<open>Buffer pool: free frames are clean\<close>

lemma free_clean_init: "free_clean (BufferPoolManagerInstance_init n b k d)"
  by (auto simp: free_clean_def BufferPoolManagerInstance_init_def frame_ok_def distinct_map
      inj_on_def)

lemma find_frame_clean:
  assumes inv: "free_clean s" and ff: "find_frame s = Inr (Some f, s1)"
  shows "unmapped_clean f s1 \<and> frame_ok s f \<and> written_back s f s1 \<and>
         next_page_id s1 = next_page_id s \<and>
         page_id (pages s1 ! nat f) = page_id (pages s ! nat f) \<and>
         data (pages s1 ! nat f) = data (pages s ! nat f) \<and>
         (\<forall>p. page_table s p = None \<longrightarrow> page_table s1 p = None) \<and>
         (is_dirty (pages s ! nat f) \<longrightarrow>
            free_list s = [] \<and> (\<exists>r'. Evict (replacer s) = Inr (Some f, r')))"
proof (cases "free_list s")
  case (Cons g fl)
  with ff have f: "f = g" and s1: "s1 = s\<lparr>free_list := fl\<rparr>"
    by (auto simp: find_frame_def)
  from inv Cons f have "frame_ok s f" "\<not> is_dirty (pages s ! nat f)" "\<forall>p. page_table s p \<noteq> Some f"
    "f \<notin> set fl" "distinct fl"
    by (auto simp: free_clean_def)
  moreover from inv Cons have "free_clean (s\<lparr>free_list := fl\<rparr>)"
    by (auto simp: free_clean_def frame_ok_def)
  ultimately show ?thesis
    using s1 by (auto simp: unmapped_clean_def written_back_def frame_ok_def)
next
  case Nil
  with ff obtain r' where ev: "Evict (replacer s) = Inr (Some f, r')" and ok: "frame_ok s f"
    by (auto simp: find_frame_def ebind_def Let_def split: sum.splits option.splits if_splits)
  let ?old = "pages s ! nat f"
  from find_frame_evict [OF Nil ev ok] ff
  have s1: "s1 = (write_back f (s\<lparr>replacer := r'\<rparr>))\<lparr>page_table := (page_table s)(page_id ?old := None)\<rparr>"
    by simp
  have wb: "write_back f (s\<lparr>replacer := r'\<rparr>) =
      (if is_dirty ?old
       then s\<lparr>replacer := r', disk := (disk s)(page_id ?old := data ?old),
              disk_log := disk_log s @ [WritePage (page_id ?old) (data ?old)],
              pages := (pages s)[nat f := ?old\<lparr>is_dirty := False\<rparr>]\<rparr>
       else s\<lparr>replacer := r'\<rparr>)"
    by (simp add: write_back_def Let_def)
  have half: "\<forall>p g. page_table s p = Some g \<longrightarrow> frame_ok s g \<and> page_id (pages s ! nat g) = p"
    using inv by (simp add: free_clean_def)
  have nomap: "\<forall>p. ((page_table s)(page_id ?old := None)) p \<noteq> Some f"
    using half by auto
  have fc: "free_clean s1"
    unfolding free_clean_def
  proof (intro conjI allI impI ballI)
    fix p g assume "page_table s1 p = Some g"
    then have m: "page_table s p = Some g" by (auto simp: s1 split: if_splits)
    with half have g: "frame_ok s g" "page_id (pages s ! nat g) = p" by auto
    show "frame_ok s1 g" using g by (simp add: s1 wb frame_ok_def)
    show "page_id (pages s1 ! nat g) = p"
      using g by (cases "nat g = nat f") (auto simp: s1 wb frame_ok_def)
  qed (simp_all add: s1 write_back_fields Nil)
  show ?thesis
    using fc ok nomap ev Nil
    by (auto simp: unmapped_clean_def written_back_def s1 wb frame_ok_def Let_def)
qed


lemma free_clean_cong:
  assumes inv: "free_clean s"
    and "page_table s' = page_table s" "free_list s' = free_list s"
    and "length (pages s') = length (pages s)"
    and "\<And>i. i < length (pages s) \<Longrightarrow> page_id (pages s' ! i) = page_id (pages s ! i)"
    and "\<And>i. i < length (pages s) \<Longrightarrow> is_dirty (pages s' ! i) \<longrightarrow> is_dirty (pages s ! i)"
  shows "free_clean s'"
  using assms unfolding free_clean_def frame_ok_def by auto

lemma install_clean:
  assumes um: "unmapped_clean f s1"
    and tbl: "page_table s' = (page_table s1)(pid \<mapsto> f)"
    and fl: "free_list s' = free_list s1"
    and len: "length (pages s') = length (pages s1)"
    and oth: "\<And>i. i < length (pages s1) \<Longrightarrow> i \<noteq> nat f \<Longrightarrow> pages s' ! i = pages s1 ! i"
    and new: "page_id (pages s' ! nat f) = pid"
  shows "free_clean s'"
  unfolding free_clean_def
proof (intro conjI allI impI ballI)
  from um have fc: "free_clean s1" and fok: "frame_ok s1 f"
    and nomap: "\<forall>p. page_table s1 p \<noteq> Some f" and nofree: "f \<notin> set (free_list s1)"
    by (simp_all add: unmapped_clean_def)
  show "distinct (free_list s')" using fc fl by (simp add: free_clean_def)
  {
    fix p g assume m: "page_table s' p = Some g"
    show "frame_ok s' g" "page_id (pages s' ! nat g) = p"
    proof -
      have "frame_ok s' g \<and> page_id (pages s' ! nat g) = p"
      proof (cases "p = pid")
        case True
        with m tbl have "g = f" by simp
        with fok len new True show ?thesis by (simp add: frame_ok_def)
      next
        case False
        with m tbl have m1: "page_table s1 p = Some g" by simp
        with fc have g: "frame_ok s1 g" "page_id (pages s1 ! nat g) = p"
          by (auto simp: free_clean_def)
        from m1 nomap have "g \<noteq> f" by auto
        with g fok have "nat g \<noteq> nat f" "nat g < length (pages s1)" by (auto simp: frame_ok_def)
        with oth g len show ?thesis by (simp add: frame_ok_def)
      qed
      then show "frame_ok s' g" "page_id (pages s' ! nat g) = p" by simp_all
    qed
  }
  {
    fix g assume "g \<in> set (free_list s')"
    then have gf: "g \<in> set (free_list s1)" using fl by simp
    with fc have g: "frame_ok s1 g" "\<not> is_dirty (pages s1 ! nat g)" "\<forall>p. page_table s1 p \<noteq> Some g"
      by (auto simp: free_clean_def)
    from gf nofree have ne: "g \<noteq> f" by auto
    with g fok have n: "nat g \<noteq> nat f" "nat g < length (pages s1)" by (auto simp: frame_ok_def)
    show "frame_ok s' g" using g len by (simp add: frame_ok_def)
    show "\<not> is_dirty (pages s' ! nat g)" using oth n g by simp
    show "\<And>p. page_table s' p \<noteq> Some g" using g ne tbl by auto
  }
qed

lemma NewPgImp_clean:
  assumes inv: "free_clean s" and op: "NewPgImp s = Inr (res, s')"
  shows "free_clean s' \<and>
         (\<forall>pid f. res = Some (pid, f) \<longrightarrow>
            frame_ok s f \<and> page_id (pages s' ! nat f) = pid \<and>
            (if is_dirty (pages s ! nat f)
             then free_list s = [] \<and> (\<exists>r'. Evict (replacer s) = Inr (Some f, r')) \<and>
                  disk_log s' = disk_log s @
                    [WritePage (page_id (pages s ! nat f)) (data (pages s ! nat f))] \<and>
                  disk s' = (disk s)(page_id (pages s ! nat f) := data (pages s ! nat f))
             else disk_log s' = disk_log s \<and> disk s' = disk s))"
proof -
  from op obtain found s1 where ff: "find_frame s = Inr (found, s1)"
    by (auto simp: NewPgImp_def ebind_def split: sum.splits)
  show ?thesis
  proof (cases found)
    case None
    with ff op have "s' = s1" "res = None" by (simp_all add: NewPgImp_def ebind_def)
    with find_frame_None ff None inv show ?thesis by auto
  next
    case (Some f)
    from find_frame_clean [OF inv] ff Some have um: "unmapped_clean f s1"
      and ok: "frame_ok s f" and wb: "written_back s f s1"
      and dirty: "is_dirty (pages s ! nat f) \<longrightarrow>
            free_list s = [] \<and> (\<exists>r'. Evict (replacer s) = Inr (Some f, r'))"
      by auto
    let ?s2 = "s1\<lparr>next_page_id := next_page_id s1 + 1,
                   page_table := (page_table s1)(next_page_id s1 \<mapsto> f)\<rparr>"
    from op ff Some obtain s3 where t: "touch_frame f ?s2 = Inr s3"
      and s': "s' = s3\<lparr>pages := (pages s3)
                 [nat f := (ResetMemory (pages s3 ! nat f))
                    \<lparr>page_id := next_page_id s1, pin_count := 1, is_dirty := False\<rparr>]\<rparr>"
      and res: "res = Some (next_page_id s1, f)"
      and ok3: "frame_ok s3 f"
      by (auto simp: NewPgImp_def ebind_def Let_def split: sum.splits if_splits)
    from touch_frame_effect [OF t] obtain r' where s3: "s3 = ?s2\<lparr>replacer := r'\<rparr>" by blast
    have fc: "free_clean s'"
    proof (rule install_clean [OF um])
      show "page_table s' = (page_table s1)(next_page_id s1 \<mapsto> f)" by (simp add: s' s3)
      show "free_list s' = free_list s1" by (simp add: s' s3)
      show "length (pages s') = length (pages s1)" by (simp add: s' s3)
      show "\<And>i. i < length (pages s1) \<Longrightarrow> i \<noteq> nat f \<Longrightarrow> pages s' ! i = pages s1 ! i"
        by (simp add: s' s3)
      show "page_id (pages s' ! nat f) = next_page_id s1"
        using ok3 by (simp add: s' s3 frame_ok_def)
    qed
    have pid: "page_id (pages s' ! nat f) = next_page_id s1"
      using ok3 by (simp add: s' s3 frame_ok_def)
    have logs: "disk_log s' = disk_log s1" "disk s' = disk s1" by (simp_all add: s' s3)
    from fc ok pid wb dirty res logs show ?thesis
      by (auto simp: written_back_def Let_def)
  qed
qed

lemma FetchPgImp_clean:
  assumes inv: "free_clean s" and op: "FetchPgImp pid s = Inr (res, s')"
  shows "free_clean s' \<and>
         (\<forall>g. page_table s pid = Some g \<longrightarrow>
            map page_id (pages s') = map page_id (pages s) \<and>
            disk_log s' = disk_log s \<and> disk s' = disk s) \<and>
         (\<forall>f. page_table s pid = None \<and> res = Some f \<longrightarrow>
            frame_ok s f \<and> page_id (pages s' ! nat f) = pid \<and>
            (if is_dirty (pages s ! nat f)
             then free_list s = [] \<and> (\<exists>r'. Evict (replacer s) = Inr (Some f, r')) \<and>
                  disk_log s' = disk_log s @
                    [WritePage (page_id (pages s ! nat f)) (data (pages s ! nat f)), ReadPage pid] \<and>
                  disk s' = (disk s)(page_id (pages s ! nat f) := data (pages s ! nat f))
             else disk_log s' = disk_log s @ [ReadPage pid] \<and> disk s' = disk s))"
proof (cases "page_table s pid")
  case (Some f)
  let ?s1 = "s\<lparr>pages := (pages s)[nat f := (pages s ! nat f)
                  \<lparr>pin_count := pin_count (pages s ! nat f) + 1\<rparr>]\<rparr>"
  from op Some have t: "touch_frame f ?s1 = Inr s'" and fok: "frame_ok s f"
    by (auto simp: FetchPgImp_def ebind_def Let_def split: sum.splits if_splits)
  from touch_frame_effect [OF t] obtain r' where s': "s' = ?s1\<lparr>replacer := r'\<rparr>" by blast
  have ids: "map page_id (pages s') = map page_id (pages s)"
    by (simp add: s' map_update map_update_same)
  have "free_clean s'"
    using fok by (intro free_clean_cong [OF inv]) (auto simp: s' nth_list_update frame_ok_def)
  with ids Some show ?thesis by (simp add: s')
next
  case None
  from op None obtain found s1 where ff: "find_frame s = Inr (found, s1)"
    by (auto simp: FetchPgImp_def ebind_def split: sum.splits)
  show ?thesis
  proof (cases found)
    case fNone: None
    with ff op None have "s' = s1" "res = None" by (simp_all add: FetchPgImp_def ebind_def)
    with find_frame_None ff fNone inv None show ?thesis by auto
  next
    case (Some f)
    from find_frame_clean [OF inv] ff Some None have um: "unmapped_clean f s1"
      and ok: "frame_ok s f" and wb: "written_back s f s1"
      and dirty: "is_dirty (pages s ! nat f) \<longrightarrow>
            free_list s = [] \<and> (\<exists>r'. Evict (replacer s) = Inr (Some f, r'))"
      by auto
    let ?s3 = "s1\<lparr>pages := (pages s1)[nat f := (pages s1 ! nat f)\<lparr>data := disk s1 pid\<rparr>],
                   disk_log := disk_log s1 @ [ReadPage pid],
                   page_table := (page_table s1)(pid \<mapsto> f)\<rparr>"
    from op ff Some None obtain s4 where t: "touch_frame f ?s3 = Inr s4"
      and s': "s' = s4\<lparr>pages := (pages s4)
                 [nat f := (pages s4 ! nat f)
                    \<lparr>page_id := pid, pin_count := 1, is_dirty := False\<rparr>]\<rparr>"
      and res: "res = Some f"
      and ok1: "frame_ok s1 f"
      by (auto simp: FetchPgImp_def ebind_def Let_def split: sum.splits if_splits)
    from touch_frame_effect [OF t] obtain r' where s4: "s4 = ?s3\<lparr>replacer := r'\<rparr>" by blast
    have fc: "free_clean s'"
    proof (rule install_clean [OF um])
      show "page_table s' = (page_table s1)(pid \<mapsto> f)" by (simp add: s' s4)
      show "free_list s' = free_list s1" by (simp add: s' s4)
      show "length (pages s') = length (pages s1)" by (simp add: s' s4)
      show "\<And>i. i < length (pages s1) \<Longrightarrow> i \<noteq> nat f \<Longrightarrow> pages s' ! i = pages s1 ! i"
        by (simp add: s' s4)
      show "page_id (pages s' ! nat f) = pid"
        using ok1 by (simp add: s' s4 frame_ok_def)
    qed
    have pid: "page_id (pages s' ! nat f) = pid"
      using ok1 by (simp add: s' s4 frame_ok_def)
    have logs: "disk_log s' = disk_log s1 @ [ReadPage pid]" "disk s' = disk s1"
      by (simp_all add: s' s4)
    from fc ok pid wb dirty res logs None show ?thesis
      by (auto simp: written_back_def Let_def)
  qed
qed


lemma UnpinPgImp_clean:
  assumes inv: "free_clean s" and op: "UnpinPgImp pid dirty s = Inr (ok, s')"
  shows "free_clean s' \<and> map page_id (pages s') = map page_id (pages s) \<and>
         disk_log s' = disk_log s \<and> disk s' = disk s"
proof (cases "page_table s pid")
  case None
  with op inv show ?thesis by (simp add: UnpinPgImp_def)
next
  case (Some f)
  with inv have fok: "frame_ok s f" and nofree: "f \<notin> set (free_list s)"
    by (auto simp: free_clean_def)
  show ?thesis
  proof (cases "pin_count (pages s ! nat f) = 0")
    case True
    with op Some fok inv show ?thesis by (simp add: UnpinPgImp_def Let_def)
  next
    case False
    let ?pg1 = "(pages s ! nat f)\<lparr>pin_count := pin_count (pages s ! nat f) - 1\<rparr>"
    let ?pg2 = "if dirty then ?pg1\<lparr>is_dirty := True\<rparr> else ?pg1"
    have "\<exists>r'. s' = s\<lparr>pages := (pages s)[nat f := ?pg2], replacer := r'\<rparr>"
    proof (cases "pin_count ?pg2 = 0")
      case True
      with op Some fok False show ?thesis
        by (auto simp: UnpinPgImp_def Let_def ebind_def split: sum.splits if_splits)
    next
      case nz: False
      with op Some fok False
      have "s' = s\<lparr>pages := (pages s)[nat f := ?pg2], replacer := replacer s\<rparr>"
        by (auto simp: UnpinPgImp_def Let_def ebind_def split: sum.splits if_splits)
      then show ?thesis by blast
    qed
    then obtain r' where
      s': "s' = s\<lparr>pages := (pages s)[nat f := ?pg2], replacer := r'\<rparr>" by blast
    have ids: "map page_id (pages s') = map page_id (pages s)"
      by (simp add: s' map_update map_update_same)
    have "free_clean s'"
      unfolding free_clean_def
    proof (intro conjI allI impI ballI)
      show "distinct (free_list s')" using inv by (simp add: s' free_clean_def)
      {
        fix p g assume "page_table s' p = Some g"
        then have "page_table s p = Some g" by (simp add: s')
        with inv have g: "frame_ok s g" "page_id (pages s ! nat g) = p"
          by (auto simp: free_clean_def)
        show "frame_ok s' g" using g by (simp add: s' frame_ok_def)
        show "page_id (pages s' ! nat g) = p"
          using g fok by (cases "nat g = nat f") (auto simp: s' frame_ok_def)
      }
      {
        fix g assume "g \<in> set (free_list s')"
        then have gf: "g \<in> set (free_list s)" by (simp add: s')
        with inv have g: "frame_ok s g" "\<not> is_dirty (pages s ! nat g)"
            "\<forall>p. page_table s p \<noteq> Some g"
          by (auto simp: free_clean_def)
        from gf nofree have "g \<noteq> f" by auto
        with g fok have n: "nat g \<noteq> nat f" by (auto simp: frame_ok_def)
        show "frame_ok s' g" using g by (simp add: s' frame_ok_def)
        show "\<not> is_dirty (pages s' ! nat g)" using g n by (simp add: s')
        show "\<And>p. page_table s' p \<noteq> Some g" using g by (simp add: s')
      }
    qed
    with ids show ?thesis by (simp add: s')
  qed
qed

lemma FlushPgImp_clean:
  assumes inv: "free_clean s" and op: "FlushPgImp pid s = Inr (ok, s')"
  shows "free_clean s' \<and> map page_id (pages s') = map page_id (pages s)"
proof (cases "page_table s pid")
  case None
  with op inv show ?thesis by (simp add: FlushPgImp_def)
next
  case (Some f)
  with inv have fok: "frame_ok s f" by (auto simp: free_clean_def)
  from op Some fok have s': "s' = s\<lparr>disk := (disk s)(pid := data (pages s ! nat f)),
        disk_log := disk_log s @ [WritePage pid (data (pages s ! nat f))],
        pages := (pages s)[nat f := (pages s ! nat f)\<lparr>is_dirty := False\<rparr>]\<rparr>"
    by (simp add: FlushPgImp_def Let_def)
  have ids: "map page_id (pages s') = map page_id (pages s)"
    by (simp add: s' map_update map_update_same)
  have "free_clean s'"
    using fok by (intro free_clean_cong [OF inv]) (auto simp: s' nth_list_update frame_ok_def)
  with ids show ?thesis by simp
qed

lemma flush_frame_dirty:
  "i < length (pages s) \<Longrightarrow> is_dirty (pages (flush_frame j s) ! i) \<longrightarrow> is_dirty (pages s ! i)"
  by (cases "j < length (pages s)") (auto simp: flush_frame_def Let_def nth_list_update)

lemma flush_frame_length: "length (pages (flush_frame j s)) = length (pages s)"
  by (simp add: flush_frame_def Let_def)

lemma flush_loop_dirty:
  "length (pages (flush_loop js s)) = length (pages s) \<and>
   (\<forall>i < length (pages s). is_dirty (pages (flush_loop js s) ! i) \<longrightarrow> is_dirty (pages s ! i))"
proof (induction js arbitrary: s)
  case Nil
  show ?case by simp
next
  case (Cons j js)
  show ?case
    using Cons [of "flush_frame j s"] Cons [of s] flush_frame_dirty [of _ s j]
      flush_frame_length [of j s]
    by auto
qed

lemma FlushAllPgsImp_clean:
  assumes inv: "free_clean s"
  shows "free_clean (FlushAllPgsImp s) \<and>
         map page_id (pages (FlushAllPgsImp s)) = map page_id (pages s)"
proof -
  let ?s' = "flush_loop [0 ..< length (pages s)] s"
  have f: "page_table ?s' = page_table s" "free_list ?s' = free_list s"
    "map page_id (pages ?s') = map page_id (pages s)"
    using flush_loop_fields [of "[0 ..< length (pages s)]" s] by simp_all
  have d: "length (pages ?s') = length (pages s)"
    "\<And>i. i < length (pages s) \<Longrightarrow> is_dirty (pages ?s' ! i) \<longrightarrow> is_dirty (pages s ! i)"
    using flush_loop_dirty [of "[0 ..< length (pages s)]" s] by simp_all
  have ids: "\<And>i. i < length (pages s) \<Longrightarrow> page_id (pages ?s' ! i) = page_id (pages s ! i)"
    using f(3) d(1) by (metis nth_map)
  have "free_clean ?s'"
    by (rule free_clean_cong [OF inv f(1) f(2) d(1) ids d(2)])
  with f show ?thesis by (simp add: FlushAllPgsImp_def)
qed

lemma DeletePgImp_clean:
  assumes inv: "free_clean s" and op: "DeletePgImp pid s = Inr (ok, s')"
  shows "free_clean s'"
proof (cases "page_table s pid")
  case None
  with op have "s' = s\<lparr>disk_log := disk_log s @ [DeallocatePage pid]\<rparr>"
    by (simp add: DeletePgImp_def)
  with inv show ?thesis by (simp add: free_clean_def frame_ok_def)
next
  case (Some f)
  with inv have fok: "frame_ok s f" and fid: "page_id (pages s ! nat f) = pid"
    and nofree: "f \<notin> set (free_list s)"
    by (auto simp: free_clean_def)
  have uniq: "\<And>p. page_table s p = Some f \<Longrightarrow> p = pid"
    using inv fid by (auto simp: free_clean_def)
  show ?thesis
  proof (cases "pin_count (pages s ! nat f) > 0")
    case True
    with op Some fok inv show ?thesis by (simp add: DeletePgImp_def)
  next
    case False
    with op Some fok obtain r1 where
      s': "s' = s\<lparr>page_table := (page_table s)(pid := None), replacer := r1,
                  free_list := free_list s @ [f],
                  pages := (pages s)[nat f := (ResetMemory (pages s ! nat f))
                     \<lparr>page_id := INVALID_PAGE_ID, pin_count := 0, is_dirty := False\<rparr>],
                  disk_log := disk_log s @ [DeallocatePage pid]\<rparr>"
      by (auto simp: DeletePgImp_def ebind_def Let_def split: sum.splits)
    show ?thesis
      unfolding free_clean_def
    proof (intro conjI allI impI ballI)
      show "distinct (free_list s')" using inv nofree by (simp add: s' free_clean_def)
      {
        fix p g assume "page_table s' p = Some g"
        then have m: "page_table s p = Some g" and pne: "p \<noteq> pid"
          by (auto simp: s' split: if_splits)
        with inv have g: "frame_ok s g" "page_id (pages s ! nat g) = p"
          by (auto simp: free_clean_def)
        from m pne uniq have "g \<noteq> f" by auto
        with g fok have n: "nat g \<noteq> nat f" by (auto simp: frame_ok_def)
        show "frame_ok s' g" using g by (simp add: s' frame_ok_def)
        show "page_id (pages s' ! nat g) = p" using g n by (simp add: s')
      }
      {
        fix g assume gin: "g \<in> set (free_list s')"
        show "frame_ok s' g" "\<not> is_dirty (pages s' ! nat g)"
        proof -
          have "frame_ok s' g \<and> \<not> is_dirty (pages s' ! nat g)"
          proof (cases "g = f")
            case True
            with fok show ?thesis by (simp add: s' frame_ok_def)
          next
            case False
            with gin have gf: "g \<in> set (free_list s)" by (simp add: s')
            with inv have g: "frame_ok s g" "\<not> is_dirty (pages s ! nat g)"
              by (auto simp: free_clean_def)
            with False fok have "nat g \<noteq> nat f" by (auto simp: frame_ok_def)
            with g show ?thesis by (simp add: s' frame_ok_def)
          qed
          then show "frame_ok s' g" "\<not> is_dirty (pages s' ! nat g)" by simp_all
        qed
        show "\<And>p. page_table s' p \<noteq> Some g"
        proof -
          fix p
          show "page_table s' p \<noteq> Some g"
          proof (cases "g = f")
            case True
            with uniq show ?thesis by (auto simp: s')
          next
            case False
            with gin have gf: "g \<in> set (free_list s)" by (simp add: s')
            with inv have "\<forall>p. page_table s p \<noteq> Some g" by (auto simp: free_clean_def)
            then show ?thesis by (simp add: s')
          qed
        qed
      }
    qed
  qed
qed

lemma bpm_run_clean: "bpm_run s \<Longrightarrow> free_clean s"
proof (induction rule: bpm_run.induct)
  case (run_start pool_size page_bytes replacer_k d)
  show ?case by (rule free_clean_init)
next
  case (run_NewPage s res s')
  with NewPgImp_clean show ?case by blast
next
  case (run_FetchPage s pid fres s')
  with FetchPgImp_clean show ?case by blast
next
  case (run_UnpinPage s pid dirty ok s')
  with UnpinPgImp_clean show ?case by blast
next
  case (run_FlushPage s pid ok s')
  with FlushPgImp_clean show ?case by blast
next
  case (run_FlushAllPages s)
  with FlushAllPgsImp_clean show ?case by blast
next
  case (run_DeletePage s pid ok s')
  with DeletePgImp_clean show ?case by blast
qed

lemma bpm_run_dirty: "bpm_run bpm_dirty"
proof -
  have "bpm_run bpm_pinned"
    by (rule bpm_run.run_NewPage [OF bpm_run.run_start bpm_pinned_step])
  then show ?thesis
    by (rule bpm_run.run_UnpinPage [OF _ bpm_dirty_step])
qed

lemma bpm_deleted_eq:
  "bpm_deleted =
     \<lparr>pages = [\<lparr>data = [0, 0, 0, 0], page_id = - 1, pin_count = 0, is_dirty = False\<rparr>],
      page_table = Map.empty,
      replacer = \<lparr>node_store = Map.empty, current_timestamp = 1, curr_size = 0,
                   replacer_size = 1, lru_k = 2, history_list = [], cache_list = []\<rparr>,
      free_list = [0], next_page_id = 1, disk = \<lambda>_. [], disk_log = [DeallocatePage 0]\<rparr>"
  by (simp add: bpm_deleted_def bpm_dirty_eq bpm_defs)

lemma bpm_deleted_step: "DeletePgImp 0 bpm_dirty = Inr (True, bpm_deleted)"
  by (simp add: bpm_deleted_def bpm_dirty_eq bpm_defs)

lemma dirty_victim_steps:
  assumes fl: "free_list s = []"
    and ev: "Evict (replacer s) = Inr (Some f, r')"
    and ok: "frame_ok s f"
    and rng: "frame_in_range (replacer s) f"
    and dirty: "is_dirty (pages s ! nat f)"
  shows "(\<exists>s1. find_frame s = Inr (Some f, s1) \<and>
            disk_log s1 = disk_log s @ [WritePage (page_id (pages s ! nat f)) (data (pages s ! nat f))] \<and>
            disk s1 (page_id (pages s ! nat f)) = data (pages s ! nat f) \<and>
            pages s1 = (pages s)[nat f := (pages s ! nat f)\<lparr>is_dirty := False\<rparr>] \<and>
            page_table s1 = (page_table s)(page_id (pages s ! nat f) := None)) \<and>
         (\<exists>s'. NewPgImp s = Inr (Some (next_page_id s, f), s') \<and>
            disk_log s' = disk_log s @ [WritePage (page_id (pages s ! nat f)) (data (pages s ! nat f))] \<and>
            disk s' (page_id (pages s ! nat f)) = data (pages s ! nat f) \<and>
            page_id (pages s' ! nat f) = next_page_id s \<and>
            (page_id (pages s ! nat f) \<noteq> next_page_id s \<longrightarrow>
               page_table s' (page_id (pages s ! nat f)) = None)) \<and>
         (page_table s pid = None \<longrightarrow>
          (\<exists>s'. FetchPgImp pid s = Inr (Some f, s') \<and>
            disk_log s' = disk_log s @ [WritePage (page_id (pages s ! nat f)) (data (pages s ! nat f)),
                                        ReadPage pid] \<and>
            disk s' (page_id (pages s ! nat f)) = data (pages s ! nat f) \<and>
            page_id (pages s' ! nat f) = pid \<and>
            (page_id (pages s ! nat f) \<noteq> pid \<longrightarrow>
               page_table s' (page_id (pages s ! nat f)) = None)))"
proof -
  let ?old = "pages s ! nat f"
  let ?s1 = "(write_back f (s\<lparr>replacer := r'\<rparr>))\<lparr>page_table := (page_table s)(page_id ?old := None)\<rparr>"
  have ff: "find_frame s = Inr (Some f, ?s1)"
    by (rule find_frame_evict [OF fl ev ok])
  have s1: "?s1 = s\<lparr>replacer := r', disk := (disk s)(page_id ?old := data ?old),
                   disk_log := disk_log s @ [WritePage (page_id ?old) (data ?old)],
                   pages := (pages s)[nat f := ?old\<lparr>is_dirty := False\<rparr>],
                   page_table := (page_table s)(page_id ?old := None)\<rparr>"
    using dirty by (simp add: write_back_def Let_def)
  have rng': "frame_in_range r' f"
    using rng Evict_replacer_size [OF ev] by (simp add: frame_in_range_def)
  have part1: "\<exists>s1. find_frame s = Inr (Some f, s1) \<and>
            disk_log s1 = disk_log s @ [WritePage (page_id ?old) (data ?old)] \<and>
            disk s1 (page_id ?old) = data ?old \<and>
            pages s1 = (pages s)[nat f := ?old\<lparr>is_dirty := False\<rparr>] \<and>
            page_table s1 = (page_table s)(page_id ?old := None)"
    using ff s1 by simp
  let ?s2 = "?s1\<lparr>next_page_id := next_page_id s + 1,
                  page_table := (page_table ?s1)(next_page_id s \<mapsto> f)\<rparr>"
  have "frame_in_range (replacer ?s2) f" using rng' s1 by simp
  from touch_frame_total [OF this] obtain r2 where
    t2: "touch_frame f ?s2 = Inr (?s2\<lparr>replacer := r2\<rparr>)" by blast
  have part2: "\<exists>s'. NewPgImp s = Inr (Some (next_page_id s, f), s') \<and>
            disk_log s' = disk_log s @ [WritePage (page_id ?old) (data ?old)] \<and>
            disk s' (page_id ?old) = data ?old \<and>
            page_id (pages s' ! nat f) = next_page_id s \<and>
            (page_id ?old \<noteq> next_page_id s \<longrightarrow> page_table s' (page_id ?old) = None)"
    using ff t2 ok s1
    by (simp add: NewPgImp_def ebind_def Let_def frame_ok_def)
  have part3: "page_table s pid = None \<longrightarrow>
          (\<exists>s'. FetchPgImp pid s = Inr (Some f, s') \<and>
            disk_log s' = disk_log s @ [WritePage (page_id ?old) (data ?old), ReadPage pid] \<and>
            disk s' (page_id ?old) = data ?old \<and>
            page_id (pages s' ! nat f) = pid \<and>
            (page_id ?old \<noteq> pid \<longrightarrow> page_table s' (page_id ?old) = None))"
  proof
    assume miss: "page_table s pid = None"
    let ?s3 = "?s1\<lparr>pages := (pages ?s1)[nat f := (pages ?s1 ! nat f)\<lparr>data := disk ?s1 pid\<rparr>],
                    disk_log := disk_log ?s1 @ [ReadPage pid],
                    page_table := (page_table ?s1)(pid \<mapsto> f)\<rparr>"
    have "frame_in_range (replacer ?s3) f" using rng' s1 by simp
    from touch_frame_total [OF this] obtain r3 where
      t3: "touch_frame f ?s3 = Inr (?s3\<lparr>replacer := r3\<rparr>)" by blast
    show "\<exists>s'. FetchPgImp pid s = Inr (Some f, s') \<and>
            disk_log s' = disk_log s @ [WritePage (page_id ?old) (data ?old), ReadPage pid] \<and>
            disk s' (page_id ?old) = data ?old \<and>
            page_id (pages s' ! nat f) = pid \<and>
            (page_id ?old \<noteq> pid \<longrightarrow> page_table s' (page_id ?old) = None)"
      using ff t3 ok s1 miss
      by (simp add: FetchPgImp_def ebind_def Let_def frame_ok_def)
  qed
  from part1 part2 part3 show ?thesis by blast
qed

section \<open>Buffer pool: unpinning a page\<close>

text \<open>
  Claim C5.  In every buffer-pool state whose page-table entry for \<open>page_id\<close>, if there
  is one, names a frame of the pool that the replacer accepts:
  \<open>UnpinPage(page_id, is_dirty)\<close> returns false and leaves the whole state unchanged when
  the page is not resident or its frame's pin count is 0.  Otherwise it returns true, the
  frame's pin count is one less, its dirty flag is the old flag or \<open>is_dirty\<close>, nothing
  else of the pool changes outside the replacer, and the replacer is changed exactly when
  the new pin count is 0, by \<open>SetEvictable(frame, true)\<close>, after which a tracked frame has
  its evictable bit set.
\<close>

theorem UnpinPgImp_spec:
  assumes tbl: "\<forall>f. page_table s pid = Some f \<longrightarrow> frame_ok s f \<and> frame_in_range (replacer s) f"
  shows "(page_table s pid = None \<longrightarrow> UnpinPgImp pid dirty s = Inr (False, s)) \<and>
         (\<forall>f. page_table s pid = Some f \<and> pin_count (pages s ! nat f) = 0 \<longrightarrow>
              UnpinPgImp pid dirty s = Inr (False, s)) \<and>
         (\<forall>f. page_table s pid = Some f \<and> pin_count (pages s ! nat f) \<noteq> 0 \<longrightarrow>
              (\<exists>s'. UnpinPgImp pid dirty s = Inr (True, s') \<and>
                    pages s' = (pages s)[nat f := (pages s ! nat f)
                       \<lparr>pin_count := pin_count (pages s ! nat f) - 1,
                        is_dirty := (is_dirty (pages s ! nat f) \<or> dirty)\<rparr>] \<and>
                    s'\<lparr>pages := pages s, replacer := replacer s\<rparr> = s \<and>
                    (if pin_count (pages s ! nat f) - 1 = 0
                     then SetEvictable f True (replacer s) = Inr (replacer s') \<and>
                          (\<forall>node. node_store (replacer s) f = Some node \<longrightarrow>
                             (\<exists>node'. node_store (replacer s') f = Some node' \<and>
                                      is_evictable node'))
                     else replacer s' = replacer s)))"
proof (intro conjI allI impI)
  show "page_table s pid = None \<Longrightarrow> UnpinPgImp pid dirty s = Inr (False, s)"
    by (simp add: UnpinPgImp_def)
next
  fix f assume "page_table s pid = Some f \<and> pin_count (pages s ! nat f) = 0"
  with tbl show "UnpinPgImp pid dirty s = Inr (False, s)"
    by (simp add: UnpinPgImp_def)
next
  fix f assume h: "page_table s pid = Some f \<and> pin_count (pages s ! nat f) \<noteq> 0"
  with tbl have ok: "frame_ok s f" and rng: "frame_in_range (replacer s) f" by auto
  obtain r' where r': "SetEvictable f True (replacer s) = Inr r'"
    using SetEvictable_total [OF rng] by blast
  show "\<exists>s'. UnpinPgImp pid dirty s = Inr (True, s') \<and>
                    pages s' = (pages s)[nat f := (pages s ! nat f)
                       \<lparr>pin_count := pin_count (pages s ! nat f) - 1,
                        is_dirty := (is_dirty (pages s ! nat f) \<or> dirty)\<rparr>] \<and>
                    s'\<lparr>pages := pages s, replacer := replacer s\<rparr> = s \<and>
                    (if pin_count (pages s ! nat f) - 1 = 0
                     then SetEvictable f True (replacer s) = Inr (replacer s') \<and>
                          (\<forall>node. node_store (replacer s) f = Some node \<longrightarrow>
                             (\<exists>node'. node_store (replacer s') f = Some node' \<and>
                                      is_evictable node'))
                     else replacer s' = replacer s)"
    using h ok r' SetEvictable_True_marks [OF r']
    by (auto simp: UnpinPgImp_def Let_def ebind_def)
qed

theorem UnpinPgImp_spec_witness:
  "page_table bpm_pinned 0 = Some 0 \<and> frame_ok bpm_pinned 0 \<and>
   frame_in_range (replacer bpm_pinned) 0 \<and> pin_count (pages bpm_pinned ! nat 0) \<noteq> 0 \<and>
   (\<exists>s'. UnpinPgImp 0 True bpm_pinned = Inr (True, s') \<and>
         pin_count (pages s' ! 0) = 0 \<and> is_dirty (pages s' ! 0) \<and>
         SetEvictable 0 True (replacer bpm_pinned) = Inr (replacer s'))"
proof -
  have tbl: "\<forall>f. page_table bpm_pinned 0 = Some f \<longrightarrow>
               frame_ok bpm_pinned f \<and> frame_in_range (replacer bpm_pinned) f"
    by (simp add: bpm_pinned_eq frame_ok_def frame_in_range_def)
  have h: "page_table bpm_pinned 0 = Some 0 \<and> pin_count (pages bpm_pinned ! nat 0) \<noteq> 0"
    by (simp add: bpm_pinned_eq)
  from UnpinPgImp_spec [OF tbl, of True] h
  obtain s' where "UnpinPgImp 0 True bpm_pinned = Inr (True, s')"
    "pages s' = (pages bpm_pinned)[nat 0 := (pages bpm_pinned ! nat 0)
        \<lparr>pin_count := pin_count (pages bpm_pinned ! nat 0) - 1,
         is_dirty := (is_dirty (pages bpm_pinned ! nat 0) \<or> True)\<rparr>]"
    "if pin_count (pages bpm_pinned ! nat 0) - 1 = 0
     then SetEvictable 0 True (replacer bpm_pinned) = Inr (replacer s') \<and>
          (\<forall>node. node_store (replacer bpm_pinned) 0 = Some node \<longrightarrow>
             (\<exists>node'. node_store (replacer s') 0 = Some node' \<and> is_evictable node'))
     else replacer s' = replacer bpm_pinned"
    by blast
  then show ?thesis
    using tbl h by (auto simp: bpm_pinned_eq)
qed

section \<open>Buffer pool: write-back of a dirty victim\<close>

text \<open>
  Claim C7 as stated fails in its closing clause, that a frame's page id is never
  replaced while it holds unwritten dirty data.  In the state \<open>bpm_dirty\<close> (a pool of one
  frame after \<open>NewPage\<close> and \<open>UnpinPage(0, true)\<close>) frame 0 carries page id 0 with the dirty
  flag set and nothing was written to the disk.  \<open>DeletePage(0)\<close> succeeds and replaces the
  frame's page id by the invalid id; the only call the disk manager receives is
  \<open>DeallocatePage(0)\<close>.
\<close>

theorem delete_dirty_counterexample:
  "bpm_run bpm_dirty \<and>
   page_table bpm_dirty 0 = Some 0 \<and> page_id (pages bpm_dirty ! 0) = 0 \<and>
   is_dirty (pages bpm_dirty ! 0) \<and> disk_log bpm_dirty = [] \<and>
   DeletePgImp 0 bpm_dirty = Inr (True, bpm_deleted) \<and>
   page_id (pages bpm_deleted ! 0) = INVALID_PAGE_ID \<and>
   disk_log bpm_deleted = [DeallocatePage 0]"
  using bpm_run_dirty bpm_deleted_step
  by (simp add: bpm_dirty_eq bpm_deleted_eq INVALID_PAGE_ID_def)

text \<open>
  Claim C7, amended.  When \<open>NewPage\<close> or \<open>FetchPage\<close> finds the free list empty and the
  replacer evicts a frame \<open>f\<close> (a frame of the pool) whose dirty flag is set: after the
  eviction half of the operation the disk manager has received
  \<open>WritePage(old page id, bytes of f)\<close> as its latest call and the disk holds these
  bytes under the old page id, while the frame still carries its old page id and bytes,
  with the dirty flag cleared, and the page table has no entry for the old page id.  The
  whole operation succeeds, its disk calls are that write (followed, for \<open>FetchPage\<close>, by
  the read of the requested page), the frame then carries the new page id, and the old
  page id is absent from the page table unless it is the id being installed.

  Moreover, in every state reached by public operations: whenever \<open>NewPage\<close> or a
  \<open>FetchPage\<close> of a page that is not resident gives a frame \<open>g\<close> a new page id, either the
  dirty flag of \<open>g\<close> was unset and the operation writes nothing to the disk, or \<open>g\<close> is the
  victim of an eviction with an empty free list and the operation's first disk call is
  the write of the frame's bytes under its old page id (the case above); a frame taken
  from the free list is never dirty.  \<open>FetchPage\<close> of a resident page, \<open>UnpinPage\<close>,
  \<open>FlushPage\<close> and \<open>FlushAllPages\<close> change no frame's page id.  \<open>DeletePage\<close> is the one
  operation that replaces the page id of a dirty frame without writing it.
\<close>

theorem dirty_victim_written_back:
  "(free_list s = [] \<and> Evict (replacer s) = Inr (Some f, r') \<and> frame_ok s f \<and>
    frame_in_range (replacer s) f \<and> is_dirty (pages s ! nat f) \<longrightarrow>
      (\<exists>s1. find_frame s = Inr (Some f, s1) \<and>
            disk_log s1 = disk_log s @ [WritePage (page_id (pages s ! nat f)) (data (pages s ! nat f))] \<and>
            disk s1 (page_id (pages s ! nat f)) = data (pages s ! nat f) \<and>
            pages s1 = (pages s)[nat f := (pages s ! nat f)\<lparr>is_dirty := False\<rparr>] \<and>
            page_table s1 = (page_table s)(page_id (pages s ! nat f) := None)) \<and>
      (\<exists>s'. NewPgImp s = Inr (Some (next_page_id s, f), s') \<and>
            disk_log s' = disk_log s @ [WritePage (page_id (pages s ! nat f)) (data (pages s ! nat f))] \<and>
            disk s' (page_id (pages s ! nat f)) = data (pages s ! nat f) \<and>
            page_id (pages s' ! nat f) = next_page_id s \<and>
            (page_id (pages s ! nat f) \<noteq> next_page_id s \<longrightarrow>
               page_table s' (page_id (pages s ! nat f)) = None)) \<and>
      (page_table s pid = None \<longrightarrow>
       (\<exists>s'. FetchPgImp pid s = Inr (Some f, s') \<and>
            disk_log s' = disk_log s @ [WritePage (page_id (pages s ! nat f)) (data (pages s ! nat f)),
                                        ReadPage pid] \<and>
            disk s' (page_id (pages s ! nat f)) = data (pages s ! nat f) \<and>
            page_id (pages s' ! nat f) = pid \<and>
            (page_id (pages s ! nat f) \<noteq> pid \<longrightarrow>
               page_table s' (page_id (pages s ! nat f)) = None)))) \<and>
   (bpm_run s \<longrightarrow>
      (\<forall>q g s'. NewPgImp s = Inr (Some (q, g), s') \<longrightarrow>
         frame_ok s g \<and> page_id (pages s' ! nat g) = q \<and>
         (if is_dirty (pages s ! nat g)
          then free_list s = [] \<and> (\<exists>r1. Evict (replacer s) = Inr (Some g, r1)) \<and>
               disk_log s' = disk_log s @
                 [WritePage (page_id (pages s ! nat g)) (data (pages s ! nat g))] \<and>
               disk s' = (disk s)(page_id (pages s ! nat g) := data (pages s ! nat g))
          else disk_log s' = disk_log s \<and> disk s' = disk s)) \<and>
      (\<forall>q g s'. page_table s q = None \<and> FetchPgImp q s = Inr (Some g, s') \<longrightarrow>
         frame_ok s g \<and> page_id (pages s' ! nat g) = q \<and>
         (if is_dirty (pages s ! nat g)
          then free_list s = [] \<and> (\<exists>r1. Evict (replacer s) = Inr (Some g, r1)) \<and>
               disk_log s' = disk_log s @
                 [WritePage (page_id (pages s ! nat g)) (data (pages s ! nat g)), ReadPage q] \<and>
               disk s' = (disk s)(page_id (pages s ! nat g) := data (pages s ! nat g))
          else disk_log s' = disk_log s @ [ReadPage q] \<and> disk s' = disk s)) \<and>
      (\<forall>q g res s'. page_table s q = Some g \<and> FetchPgImp q s = Inr (res, s') \<longrightarrow>
         map page_id (pages s') = map page_id (pages s)) \<and>
      (\<forall>q d ok s'. UnpinPgImp q d s = Inr (ok, s') \<longrightarrow>
         map page_id (pages s') = map page_id (pages s)) \<and>
      (\<forall>q ok s'. FlushPgImp q s = Inr (ok, s') \<longrightarrow>
         map page_id (pages s') = map page_id (pages s)) \<and>
      map page_id (pages (FlushAllPgsImp s)) = map page_id (pages s))"
proof (intro conjI impI)
  assume "free_list s = [] \<and> Evict (replacer s) = Inr (Some f, r') \<and> frame_ok s f \<and>
    frame_in_range (replacer s) f \<and> is_dirty (pages s ! nat f)"
  then have h: "free_list s = []" "Evict (replacer s) = Inr (Some f, r')" "frame_ok s f"
    "frame_in_range (replacer s) f" "is_dirty (pages s ! nat f)" by simp_all
  note st = dirty_victim_steps [OF h, of pid]
  from st show "\<exists>s1. find_frame s = Inr (Some f, s1) \<and>
            disk_log s1 = disk_log s @ [WritePage (page_id (pages s ! nat f)) (data (pages s ! nat f))] \<and>
            disk s1 (page_id (pages s ! nat f)) = data (pages s ! nat f) \<and>
            pages s1 = (pages s)[nat f := (pages s ! nat f)\<lparr>is_dirty := False\<rparr>] \<and>
            page_table s1 = (page_table s)(page_id (pages s ! nat f) := None)"
    by (rule conjunct1)
  from st show "\<exists>s'. NewPgImp s = Inr (Some (next_page_id s, f), s') \<and>
            disk_log s' = disk_log s @ [WritePage (page_id (pages s ! nat f)) (data (pages s ! nat f))] \<and>
            disk s' (page_id (pages s ! nat f)) = data (pages s ! nat f) \<and>
            page_id (pages s' ! nat f) = next_page_id s \<and>
            (page_id (pages s ! nat f) \<noteq> next_page_id s \<longrightarrow>
               page_table s' (page_id (pages s ! nat f)) = None)"
    by (rule conjunct1 [OF conjunct2])
  assume "page_table s pid = None"
  with st show "\<exists>s'. FetchPgImp pid s = Inr (Some f, s') \<and>
            disk_log s' = disk_log s @ [WritePage (page_id (pages s ! nat f)) (data (pages s ! nat f)),
                                        ReadPage pid] \<and>
            disk s' (page_id (pages s ! nat f)) = data (pages s ! nat f) \<and>
            page_id (pages s' ! nat f) = pid \<and>
            (page_id (pages s ! nat f) \<noteq> pid \<longrightarrow>
               page_table s' (page_id (pages s ! nat f)) = None)"
    by blast
next
  assume "bpm_run s"
  then have inv: "free_clean s" by (rule bpm_run_clean)
  show "\<forall>q g s'. NewPgImp s = Inr (Some (q, g), s') \<longrightarrow>
         frame_ok s g \<and> page_id (pages s' ! nat g) = q \<and>
         (if is_dirty (pages s ! nat g)
          then free_list s = [] \<and> (\<exists>r1. Evict (replacer s) = Inr (Some g, r1)) \<and>
               disk_log s' = disk_log s @
                 [WritePage (page_id (pages s ! nat g)) (data (pages s ! nat g))] \<and>
               disk s' = (disk s)(page_id (pages s ! nat g) := data (pages s ! nat g))
          else disk_log s' = disk_log s \<and> disk s' = disk s)"
    using NewPgImp_clean [OF inv] by blast
next
  assume "bpm_run s"
  then have inv: "free_clean s" by (rule bpm_run_clean)
  show "\<forall>q g s'. page_table s q = None \<and> FetchPgImp q s = Inr (Some g, s') \<longrightarrow>
         frame_ok s g \<and> page_id (pages s' ! nat g) = q \<and>
         (if is_dirty (pages s ! nat g)
          then free_list s = [] \<and> (\<exists>r1. Evict (replacer s) = Inr (Some g, r1)) \<and>
               disk_log s' = disk_log s @
                 [WritePage (page_id (pages s ! nat g)) (data (pages s ! nat g)), ReadPage q] \<and>
               disk s' = (disk s)(page_id (pages s ! nat g) := data (pages s ! nat g))
          else disk_log s' = disk_log s @ [ReadPage q] \<and> disk s' = disk s)"
    using FetchPgImp_clean [OF inv] by blast
next
  assume "bpm_run s"
  then have inv: "free_clean s" by (rule bpm_run_clean)
  show "\<forall>q g res s'. page_table s q = Some g \<and> FetchPgImp q s = Inr (res, s') \<longrightarrow>
         map page_id (pages s') = map page_id (pages s)"
    using FetchPgImp_clean [OF inv] by blast
next
  assume "bpm_run s"
  then have inv: "free_clean s" by (rule bpm_run_clean)
  show "\<forall>q d ok s'. UnpinPgImp q d s = Inr (ok, s') \<longrightarrow>
         map page_id (pages s') = map page_id (pages s)"
    using UnpinPgImp_clean [OF inv] by blast
next
  assume "bpm_run s"
  then have inv: "free_clean s" by (rule bpm_run_clean)
  show "\<forall>q ok s'. FlushPgImp q s = Inr (ok, s') \<longrightarrow>
         map page_id (pages s') = map page_id (pages s)"
    using FlushPgImp_clean [OF inv] by blast
next
  assume "bpm_run s"
  then have inv: "free_clean s" by (rule bpm_run_clean)
  show "map page_id (pages (FlushAllPgsImp s)) = map page_id (pages s)"
    using FlushAllPgsImp_clean [OF inv] by blast
qed

theorem dirty_victim_written_back_witness:
  "free_list bpm_dirty = [] \<and> frame_ok bpm_dirty 0 \<and> is_dirty (pages bpm_dirty ! nat 0) \<and>
   page_table bpm_dirty 7 = None \<and> bpm_run bpm_dirty \<and>
   (\<exists>s'. NewPgImp bpm_dirty = Inr (Some (1, 0), s') \<and>
         disk_log s' = [WritePage 0 [0, 0, 0, 0]] \<and> disk s' = (\<lambda>_. [])(0 := [0, 0, 0, 0]) \<and>
         page_id (pages s' ! 0) = 1 \<and> page_table s' 0 = None) \<and>
   (\<exists>s'. FetchPgImp 7 bpm_dirty = Inr (Some 0, s') \<and>
         disk_log s' = [WritePage 0 [0, 0, 0, 0], ReadPage 7] \<and>
         disk s' = (\<lambda>_. [])(0 := [0, 0, 0, 0]) \<and>
         page_id (pages s' ! 0) = 7 \<and> page_table s' 0 = None) \<and>
   map page_id (pages (FlushAllPgsImp bpm_dirty)) = map page_id (pages bpm_dirty)"
proof -
  have fl: "free_list bpm_dirty = []" by (simp add: bpm_dirty_eq)
  have ev: "Evict (replacer bpm_dirty) =
      Inr (Some 0, \<lparr>node_store = Map.empty, current_timestamp = 1, curr_size = 0,
                    replacer_size = 1, lru_k = 2, history_list = [], cache_list = []\<rparr>)"
    by (simp add: bpm_dirty_eq Evict_def)
  have ok: "frame_ok bpm_dirty 0" by (simp add: bpm_dirty_eq frame_ok_def)
  have rng: "frame_in_range (replacer bpm_dirty) 0" by (simp add: bpm_dirty_eq frame_in_range_def)
  have dirty: "is_dirty (pages bpm_dirty ! nat 0)" by (simp add: bpm_dirty_eq)
  have miss: "page_table bpm_dirty 7 = None" by (simp add: bpm_dirty_eq)
  have vals: "page_id (pages bpm_dirty ! 0) = 0" "data (pages bpm_dirty ! 0) = [0, 0, 0, 0]"
    "next_page_id bpm_dirty = 1" "disk_log bpm_dirty = []" "disk bpm_dirty = (\<lambda>_. [])"
    by (simp_all add: bpm_dirty_eq)
  note th = dirty_victim_written_back [of bpm_dirty 0
      "\<lparr>node_store = Map.empty, current_timestamp = 1, curr_size = 0,
        replacer_size = 1, lru_k = 2, history_list = [], cache_list = []\<rparr>" 7]
  from th fl ev ok rng dirty miss
  obtain s' where new: "NewPgImp bpm_dirty = Inr (Some (1, 0), s')"
      "page_id (pages s' ! 0) = 1" "page_table s' 0 = None"
    by (auto simp: vals)
  from th fl ev ok rng dirty miss
  obtain s'' where fetch: "FetchPgImp 7 bpm_dirty = Inr (Some 0, s'')"
      "page_id (pages s'' ! 0) = 7" "page_table s'' 0 = None"
    by (auto simp: vals)
  from th bpm_run_dirty new(1) dirty
  have new_disk: "disk_log s' = [WritePage 0 [0, 0, 0, 0]]" "disk s' = (\<lambda>_. [])(0 := [0, 0, 0, 0])"
    by (auto simp: vals)
  from th bpm_run_dirty fetch(1) miss dirty
  have fetch_disk: "disk_log s'' = [WritePage 0 [0, 0, 0, 0], ReadPage 7]"
      "disk s'' = (\<lambda>_. [])(0 := [0, 0, 0, 0])"
    by (auto simp: vals)
  from th bpm_run_dirty
  have ids: "map page_id (pages (FlushAllPgsImp bpm_dirty)) = map page_id (pages bpm_dirty)"
    by blast
  from fl ok dirty miss bpm_run_dirty new new_disk fetch fetch_disk ids show ?thesis
    by blast
qed


section \<open>Buffer pool: page table and frames agree\<close>

text \<open>
  Claim C6 as stated fails: on a pool of two frames, \<open>FetchPage(0)\<close> before any page was
  allocated puts page id 0 in frame 0, and the next \<open>NewPage\<close> allocates page id 0 for
  frame 1 and overwrites the page-table entry.  Frame 0 then carries the valid page id
  0, which the page table maps to frame 1.
\<close>

theorem fetch_unallocated_counterexample:
  "FetchPgImp 0 (BufferPoolManagerInstance_init 2 4 2 (\<lambda>_. [])) = Inr (Some 0, bpm_fetched0) \<and>
   NewPgImp bpm_fetched0 = Inr (Some (0, 1), bpm_clash) \<and>
   page_id (pages bpm_clash ! 0) = 0 \<and> page_id (pages bpm_clash ! 0) \<noteq> INVALID_PAGE_ID \<and>
   page_table bpm_clash (page_id (pages bpm_clash ! 0)) = Some 1 \<and>
   \<not> table_frames_agree bpm_clash"
proof -
  have vals: "page_id (pages bpm_clash ! 0) = 0" "page_table bpm_clash 0 = Some 1"
    "length (pages bpm_clash) = 2"
    by (simp_all add: bpm_clash_def bpm_fetched0_def bpm_defs eval_nat_numeral)
  have "\<not> table_frames_agree bpm_clash"
  proof
    assume "table_frames_agree bpm_clash"
    then have "page_id (pages bpm_clash ! 0) \<noteq> INVALID_PAGE_ID \<longrightarrow>
           page_table bpm_clash (page_id (pages bpm_clash ! 0)) = Some (int 0)"
      using vals(3) by (simp add: table_frames_agree_def)
    with vals show False by (simp add: INVALID_PAGE_ID_def)
  qed
  with vals bpm_fetched0_eq bpm_clash_eq show ?thesis
    by (simp add: INVALID_PAGE_ID_def)
qed

text \<open>
  Claim C6, amended.  After any sequence of public buffer-pool operations starting from
  the initial state in which every \<open>FetchPage\<close> asks for a page id below the allocator's
  next page id, page table and frames agree: \<open>page_table[p] = f\<close> implies that \<open>f\<close> is a
  frame of the pool with \<open>frames[f].page_id = p\<close>, and every frame \<open>f\<close> with a valid page
  id has \<open>page_table[frames[f].page_id] = f\<close>.
\<close>

theorem reachable_table_frames_agree:
  "bpm_reachable s \<Longrightarrow> table_frames_agree s"
  using bpm_reachable_inv by (simp add: bpm_inv_def)


theorem reachable_table_frames_agree_witness:
  "bpm_reachable bpm_dirty \<and> table_frames_agree bpm_dirty \<and>
   page_table bpm_dirty 0 = Some 0 \<and> page_id (pages bpm_dirty ! 0) = 0"
proof -
  have "bpm_reachable bpm_pinned"
    by (rule bpm_reachable.NewPage [OF bpm_reachable.start bpm_pinned_step])
  then have r: "bpm_reachable bpm_dirty"
    by (rule bpm_reachable.UnpinPage [OF _ bpm_dirty_step])
  from reachable_table_frames_agree [OF r] r show ?thesis
    by (simp add: bpm_dirty_eq)
qed


section \<open>Replacer: eviction among frames with fewer than K accesses\<close>

text \<open>
  Claim C3 (the code at a concrete input).  With \<open>K = 2\<close>, frame 0 is accessed at
  timestamp 1 and frame 1 at timestamp 2; frame 1 is made evictable first, then frame 0.
  Both are evictable with fewer than \<open>K\<close> accesses, frame 0 has the earliest first
  access, and \<open>Evict\<close> returns frame 1: \<open>history_list_\<close> is ordered by the time a frame
  was made evictable, not by its first access.
\<close>

theorem Evict_history_list_order:
  "lruk_two_young =
     Inr \<lparr>node_store = [0 \<mapsto> \<lparr>history = [1], is_evictable = True\<rparr>,
                         1 \<mapsto> \<lparr>history = [2], is_evictable = True\<rparr>],
          current_timestamp = 2, curr_size = 2, replacer_size = 3, lru_k = 2,
          history_list = [0, 1], cache_list = []\<rparr> \<and>
   map_sum id fst (ebind lruk_two_young Evict) = Inr (Some 1)"
  by (simp add: lruk_two_young_def bpm_defs fun_upd_twist) (simp add: numeral_2_eq_2)

section \<open>Replacer: removing an untracked frame\<close>

text \<open>
  Claim C10.  For every replacer state and every in-range frame id \<open>f\<close> for which no access
  has been recorded (no node in the store), \<open>Remove f\<close> returns normally, without raising
  the fatal assertion, and leaves the whole replacer state unchanged (so \<open>Size\<close>, both
  lists and all histories); and \<open>Remove\<close> raises the assertion "Remove called on
  non-evictable frame" exactly for an in-range, tracked frame whose evictable bit is unset.
\<close>

theorem Remove_untracked_noop:
  "(frame_in_range r f \<and> node_store r f = None \<longrightarrow> Remove f r = Inr r) \<and>
   (Remove f r = Inl RemoveNonEvictable \<longleftrightarrow>
      frame_in_range r f \<and> (\<exists>node. node_store r f = Some node \<and> \<not> is_evictable node))"
  by (auto simp: Remove_def Let_def split: option.splits if_splits)

theorem Remove_untracked_noop_witness:
  "frame_in_range (LRUKReplacer_init 3 2) 1 \<and> node_store (LRUKReplacer_init 3 2) 1 = None \<and>
   Remove 1 (LRUKReplacer_init 3 2) = Inr (LRUKReplacer_init 3 2) \<and>
   Size (LRUKReplacer_init 3 2) = 0"
  using Remove_untracked_noop [of "LRUKReplacer_init 3 2" 1]
  by (simp add: frame_in_range_def LRUKReplacer_init_def Size_def)

section \<open>Hash table: splitting a full bucket\<close>




section \<open>Hash table: inserting a key that is present\<close>

text \<open>
  Claim C9.  If \<open>Find(k)\<close> succeeds in a table state (the key is present), then
  \<open>Insert(k, v)\<close> returns after replacing the value in the bucket, whether or not the
  bucket is full: global depth, bucket count, directory, the number of buckets in the
  store, every bucket's depth, capacity and keys are unchanged, every other key has the
  same value in every bucket and the same \<open>Find\<close> result, and \<open>Find(k)\<close> then yields
  \<open>v\<close>.
\<close>

theorem Insert_existing_key:
  assumes present: "Find h k s = Inr (Some v0)"
  shows "\<exists>s'. Insert h k v s = Some (Inr s') \<and>
           global_depth s' = global_depth s \<and> num_buckets s' = num_buckets s \<and>
           dir s' = dir s \<and> bucket_size s' = bucket_size s \<and>
           length (buckets s') = length (buckets s) \<and>
           (\<forall>a < length (buckets s).
              b_depth (buckets s' ! a) = b_depth (buckets s ! a) \<and>
              b_size (buckets s' ! a) = b_size (buckets s ! a) \<and>
              map fst (b_list (buckets s' ! a)) = map fst (b_list (buckets s ! a)) \<and>
              (\<forall>k'. k' \<noteq> k \<longrightarrow>
                 Bucket_Find (b_list (buckets s' ! a)) k' = Bucket_Find (b_list (buckets s ! a)) k')) \<and>
           Find h k s' = Inr (Some v) \<and>
           (\<forall>k'. k' \<noteq> k \<longrightarrow> Find h k' s' = Find h k' s)"
proof -
  let ?i = "IndexOf h s k"
  let ?a = "dir s ! ?i"
  let ?b = "buckets s ! ?a"
  from present have ok: "slot_ok s ?i" and found: "Bucket_Find (b_list ?b) k = Some v0"
    by (auto simp: Find_def Let_def split: if_splits)
  then obtain l' where upd: "Bucket_update (b_list ?b) k v = Some l'"
    using Bucket_update_Some_iff [of "b_list ?b" k v] by auto
  let ?s' = "s\<lparr>buckets := (buckets s)[?a := ?b\<lparr>b_list := l'\<rparr>]\<rparr>"
  have ins: "Insert h k v s = Some (Inr ?s')"
    using ok upd by (subst Insert.simps) (simp add: Let_def Bucket_Insert_def)
  have idx: "\<And>k'. IndexOf h ?s' k' = IndexOf h s k'" by (simp add: IndexOf_def)
  have sok: "\<And>i. slot_ok ?s' i = slot_ok s i" by (simp add: slot_ok_def)
  have alen: "?a < length (buckets s)" using ok by (simp add: slot_ok_def)
  have bk: "\<And>a. a < length (buckets s) \<Longrightarrow>
       buckets ?s' ! a = (if a = ?a then ?b\<lparr>b_list := l'\<rparr> else buckets s ! a)"
    by (simp add: nth_list_update)
  have f_same: "Find h k ?s' = Inr (Some v)"
    using ok alen Bucket_update_Find_same [OF upd]
    by (simp add: Find_def Let_def idx sok)
  have f_other: "\<And>k'. k' \<noteq> k \<Longrightarrow> Find h k' ?s' = Find h k' s"
  proof -
    fix k' assume ne: "k' \<noteq> k"
    show "Find h k' ?s' = Find h k' s"
    proof (cases "slot_ok s (IndexOf h s k')")
      case False
      then show ?thesis by (simp add: Find_def Let_def idx sok)
    next
      case True
      then have "dir s ! IndexOf h s k' < length (buckets s)" by (simp add: slot_ok_def)
      then show ?thesis
        using True Bucket_update_Find_other [OF upd ne]
        by (cases "dir s ! IndexOf h s k' = ?a")
           (simp_all add: Find_def Let_def idx sok)
    qed
  qed
  have frame: "\<forall>a < length (buckets s).
              b_depth (buckets ?s' ! a) = b_depth (buckets s ! a) \<and>
              b_size (buckets ?s' ! a) = b_size (buckets s ! a) \<and>
              map fst (b_list (buckets ?s' ! a)) = map fst (b_list (buckets s ! a)) \<and>
              (\<forall>k'. k' \<noteq> k \<longrightarrow>
                 Bucket_Find (b_list (buckets ?s' ! a)) k' = Bucket_Find (b_list (buckets s ! a)) k')"
    using Bucket_update_keys [OF upd] Bucket_update_Find_other [OF upd] alen
    by (auto simp: nth_list_update)
  show ?thesis
    using ins f_same f_other frame by (intro exI [of _ ?s']) simp
qed

theorem Insert_existing_key_witness:
  "Find id 0 eht_two = Inr (Some 10) \<and> IsFull (buckets eht_two ! 0) \<and>
   (\<exists>s'. Insert id 0 99 eht_two = Some (Inr s') \<and> dir s' = dir eht_two \<and>
         num_buckets s' = 2 \<and> global_depth s' = 1 \<and>
         Find id 0 s' = Inr (Some 99) \<and> Find id 1 s' = Inr (Some 11))"
proof -
  have present: "Find id 0 eht_two = Inr (Some (10 :: nat))" by code_simp
  have full: "IsFull (buckets eht_two ! 0)" by code_simp
  have other: "Find id 1 eht_two = Inr (Some (11 :: nat))" by code_simp
  from Insert_existing_key [OF present, of 99]
  obtain s' where s': "Insert id 0 99 eht_two = Some (Inr s')"
    "global_depth s' = global_depth eht_two" "num_buckets s' = num_buckets eht_two"
    "dir s' = dir eht_two" "Find id 0 s' = Inr (Some 99)"
    "\<forall>k'. k' \<noteq> 0 \<longrightarrow> Find id k' s' = Find id k' eht_two"
    by blast
  from s'(6) other have "Find id 1 s' = Inr (Some 11)" by simp
  with s' present full show ?thesis by (simp add: eht_two_def)
qed

section \<open>B+ tree: point lookup after a removal\<close>

text \<open>
  Claim C1 (the code at a concrete input).  With leaf size 2 and internal size 4, after
  inserting 5, 10, 14, 4, 8 and removing 10, the key 8 was inserted and not removed, and
  \<open>GetValue(8)\<close> returns false and appends nothing.  Removing 10 empties a leaf, the merge
  leaves its parent with one child, and the parent borrows the last child of its left
  sibling (the leaf of key 8): \<open>Redistribute\<close> keeps the old separator 10 in the root
  where the borrowed subtree's lower bound is needed, so keys from 8 up to 10 are still
  routed to the left sibling.
\<close>

theorem GetValue_misses_present_key:
  "Option.bind bpt_lost_key (case_sum (\<lambda>e. Some (Inl e)) (\<lambda>t. GetValue t 8)) = Some (Inr (False, []))"
  by code_simp

section \<open>B+ tree: the iterator of a key\<close>

text \<open>
  Claim C2 (the code at a concrete input).  With leaf and internal size 3, after
  inserting 1, 3, 4 (the run \<open>bpt_split\<close>, which ends in the state \<open>bpt_split_state\<close>)
  the leaf page 1 holds the key 1 and the leaf page 2 holds the keys 3 and 4.
  \<open>Begin(2)\<close> returns the iterator at slot 1 of page 1, a leaf of size 1: it is behind the
  last entry of that leaf, and it is not the iterator at the first stored key that is at
  least 2, which is the entry (3, 30) at slot 0 of page 2.  After the removal of 3 (the
  run \<open>bpt_three\<close>, which ends in the state \<open>bpt_three_state\<close>) \<open>Begin(2)\<close> returns the
  same iterator, and the first stored key that is at least 2 is the entry (4, 40) at
  slot 0 of page 2.
\<close>

theorem Begin_key_past_leaf_end:
  "bpt_split = Some (Inr bpt_split_state) \<and>
   bpt_three = Some (Inr bpt_three_state) \<and>
   Begin_key bpt_split_state 2 = Some (Inr \<lparr>it_leaf = Some 1, it_page_id = 1, it_index = 1\<rparr>) \<and>
   map_sum id GetSize (FetchPage bpt_split_state 1) = Inr 1 \<and>
   map_sum id array (FetchPage bpt_split_state 1) = Inr [(1, 10)] \<and>
   map_sum id array (FetchPage bpt_split_state 2) = Inr [(3, 30), (4, 40)] \<and>
   \<not> iterator_eq \<lparr>it_leaf = Some 1, it_page_id = 1, it_index = 1\<rparr>
                   \<lparr>it_leaf = Some 2, it_page_id = 2, it_index = 0\<rparr> \<and>
   Begin_key bpt_three_state 2 = Some (Inr \<lparr>it_leaf = Some 1, it_page_id = 1, it_index = 1\<rparr>) \<and>
   map_sum id GetSize (FetchPage bpt_three_state 1) = Inr 1 \<and>
   map_sum id array (FetchPage bpt_three_state 1) = Inr [(1, 10)] \<and>
   map_sum id array (FetchPage bpt_three_state 2) = Inr [(4, 40)]"
  by code_simp

section \<open>B+ tree: inserting a key that is present\<close>

text \<open>
  Claim C8 (the code at a concrete input).  With leaf size 2 and internal size 4, after
  inserting 5, 10, 14, 4, 8 and removing 10 (the run \<open>bpt_lost_key\<close>, which ends in the
  state \<open>bpt_lost_state\<close>), the tree contains the key 8: the entry (8, 80) is slot 0 of
  the leaf page 8, the third leaf of the chain that starts at the leaf \<open>Begin()\<close> returns
  (pages 1, 5, 8, 2).  \<open>Insert(8, 99)\<close> returns true and changes the tree: its descent for
  the key 8 ends in the leaf page 5, which does not hold the key, so the duplicate test
  of \<open>InsertIntoLeaf\<close> does not fire, the entry (8, 99) is put in that leaf, the leaf is
  split, and the result \<open>bpt_dup_state\<close> holds the key 8 twice, in the new leaf page 9
  and in the leaf page 8, with a new slot in the internal page 3 and new sibling pointers.
\<close>

theorem Insert_duplicate_stored_twice:
  "bpt_lost_key = Some (Inr bpt_lost_state) \<and>
   Begin bpt_lost_state = Some (Inr \<lparr>it_leaf = Some 1, it_page_id = 1, it_index = 0\<rparr>) \<and>
   increment bpt_lost_state \<lparr>it_leaf = Some 1, it_page_id = 1, it_index = 0\<rparr> =
     Inr \<lparr>it_leaf = Some 5, it_page_id = 5, it_index = 0\<rparr> \<and>
   increment bpt_lost_state \<lparr>it_leaf = Some 5, it_page_id = 5, it_index = 0\<rparr> =
     Inr \<lparr>it_leaf = Some 8, it_page_id = 8, it_index = 0\<rparr> \<and>
   ebind (FetchPage bpt_lost_state 8) (\<lambda>leaf. slot_at leaf 0) = Inr (8, 80) \<and>
   Insert_tree 8 99 bpt_lost_state = Some (Inr (True, bpt_dup_state)) \<and>
   bpt_dup_state \<noteq> bpt_lost_state \<and>
   map_sum id array (FetchPage bpt_dup_state 9) = Inr [(8, 99)] \<and>
   map_sum id array (FetchPage bpt_dup_state 8) = Inr [(8, 80)] \<and>
   map_sum id array (FetchPage bpt_dup_state 3) = Inr [(0, 1), (5, 5), (8, 9)] \<and>
   map_sum id next_page_id_leaf (FetchPage bpt_dup_state 5) = Inr 9 \<and>
   map_sum id next_page_id_leaf (FetchPage bpt_dup_state 9) = Inr 8"
  by code_simp

end
